(* ===== verification/FS_Prelude.thy ===== *)
theory FS_Prelude
  imports Complex_Main "HOL-Library.Word" "HOL-Library.Multiset"
begin

text \<open>
  Shared vocabulary of the development: the machine integer types of the program, the
  failure values its operations return, the model of Rust's \<^verbatim>\<open>?\<close> operator, and generic
  facts about lists, filters and word counters that the component theories use.
\<close>

section \<open>Collections of facts\<close>

named_theorems scan_defs \<open>definitions of the scan engine, unfolded together\<close>
named_theorems stat_defs \<open>definitions of the statistics and of their accumulation steps\<close>
named_theorems f64_defs \<open>definitions of the derived floating-point operations\<close>

section \<open>Machine integers\<close>

type_synonym u8 = "8 word"
type_synonym u64 = "64 word"
type_synonym i64 = "64 word"
type_synonym usize = "64 word"

text \<open>
  Signed reading of an \<^verbatim>\<open>i64\<close>: \<open>abs\<close> wraps at the least value, as the release build does.
\<close>

definition abs_i64 :: "i64 \<Rightarrow> i64" where
  "abs_i64 w = (if sint w < 0 then - w else w)"

section \<open>Results\<close>

text \<open>
  \<^verbatim>\<open>Result<T>\<close> is \<^verbatim>\<open>Result<T, Box<dyn Error>>\<close>. Three kinds of error value reach it
  through \<^verbatim>\<open>?\<close>: an I/O error, a UTF-8 error and a float parse error. A panic
  (\<^verbatim>\<open>expect\<close> on \<^verbatim>\<open>None\<close>) ends the process; it is kept as a fourth failure value that
  carries the panic message.
\<close>

datatype error = IoError | Utf8Error | ParseFloatError | Panic string

type_synonym 'a result = "error + 'a"

datatype ordering = Less | Equal | Greater

definition rbind :: "'a result \<Rightarrow> ('a \<Rightarrow> 'b result) \<Rightarrow> 'b result" where
  "rbind m f = (case m of Inl e \<Rightarrow> Inl e | Inr x \<Rightarrow> f x)"

definition is_ok :: "'a result \<Rightarrow> bool" where
  "is_ok m = (case m of Inl e \<Rightarrow> False | Inr x \<Rightarrow> True)"

lemma rbind_Inl [simp]: "rbind (Inl e) f = Inl e"
  by (simp add: rbind_def)

lemma rbind_Inr [simp]: "rbind (Inr x) f = f x"
  by (simp add: rbind_def)

lemma rbind_return [simp]: "rbind m Inr = m"
  by (cases m) simp_all

lemma rbind_assoc: "rbind (rbind m f) g = rbind m (\<lambda>x. rbind (f x) g)"
  by (cases m) simp_all

lemma rbind_eq_Inr_iff: "rbind m f = Inr y \<longleftrightarrow> (\<exists>x. m = Inr x \<and> f x = Inr y)"
  by (cases m) simp_all

lemma rbind_eq_Inl_iff:
  "rbind m f = Inl e \<longleftrightarrow> m = Inl e \<or> (\<exists>x. m = Inr x \<and> f x = Inl e)"
  by (cases m) simp_all

lemma is_ok_simps [simp]: "is_ok (Inr x)" "\<not> is_ok (Inl e)"
  by (simp_all add: is_ok_def)

lemma is_ok_iff: "is_ok m \<longleftrightarrow> (\<exists>x. m = Inr x)"
  by (cases m) simp_all

lemma is_ok_rbind: "is_ok (rbind m f) \<longleftrightarrow> (\<exists>x. m = Inr x \<and> is_ok (f x))"
  by (cases m) simp_all

section \<open>Counters\<close>

text \<open>
  A loop that adds one to a word for every element of a list ends at the start value
  plus the length, modulo the width; below the width the counter is exact.
\<close>

lemma fold_count_word:
  "fold (\<lambda>_ n. n + 1) xs (k :: 'a::len word) = k + of_nat (length xs)"
  by (induction xs arbitrary: k) (simp_all add: algebra_simps)

lemma fold_count_if_word:
  "fold (\<lambda>x n. if P x then n + 1 else n) xs (k :: 'a::len word)
     = k + of_nat (length (filter P xs))"
  by (induction xs arbitrary: k) (simp_all add: algebra_simps)

lemma unat_of_nat_u64: "n < 2 ^ 64 \<Longrightarrow> unat (of_nat n :: u64) = n"
  by (simp add: unat_of_nat)

lemma sint_of_nat_i64: "n < 2 ^ 63 \<Longrightarrow> sint (of_nat n :: i64) = int n"
  by (simp add: signed_of_nat signed_take_bit_int_eq_self)

lemma sint_of_nat_diff_i64:
  "a < 2 ^ 63 \<Longrightarrow> b < 2 ^ 63 \<Longrightarrow> sint (of_nat a - of_nat b :: i64) = int a - int b"
  by (simp add: sint_word_diff sint_of_nat_i64 signed_take_bit_int_eq_self)

lemma sint_abs_i64: "- (2 ^ 63) < sint w \<Longrightarrow> sint (abs_i64 w) = \<bar>sint w\<bar>"
  using sint_lt [of w]
  by (auto simp: abs_i64_def sint_word_minus signed_take_bit_int_eq_self)

lemma sint_of_nat_succ_i64:
  "a + 1 < 2 ^ 63 \<Longrightarrow> sint (of_nat a + 1 :: i64) = int a + 1"
  using sint_of_nat_i64 [of "a + 1"] by (simp add: add.commute)

section \<open>Three-way classification of a list\<close>

lemma length_filter_three_way:
  fixes v :: "'a::linorder"
  shows "length (filter (\<lambda>x. x < v) xs) + length (filter (\<lambda>x. x = v) xs)
           + length (filter (\<lambda>x. v < x) xs) = length xs"
  by (induction xs) auto

section \<open>Extrema and sums of real lists\<close>

lemma Min_insert_min:
  fixes u v :: "'a::linorder"
  shows "finite S \<Longrightarrow> Min (insert (min u v) S) = Min (insert v (insert u S))"
  by (cases "S = {}") (simp_all add: ac_simps)

lemma Max_insert_max:
  fixes u v :: "'a::linorder"
  shows "finite S \<Longrightarrow> Max (insert (max u v) S) = Max (insert v (insert u S))"
  by (cases "S = {}") (simp_all add: ac_simps)

lemma sum_list_le_length_times:
  fixes ys :: "real list"
  shows "(\<And>y. y \<in> set ys \<Longrightarrow> y \<le> M) \<Longrightarrow> sum_list ys \<le> real (length ys) * M"
  by (induction ys) (auto simp: algebra_simps intro: add_mono)

lemma sum_list_ge_length_times:
  fixes ys :: "real list"
  shows "(\<And>y. y \<in> set ys \<Longrightarrow> m \<le> y) \<Longrightarrow> real (length ys) * m \<le> sum_list ys"
  by (induction ys) (auto simp: algebra_simps intro: add_mono)

lemma mean_between:
  fixes ys :: "real list"
  assumes "ys \<noteq> []"
  shows "Min (set ys) \<le> sum_list ys / real (length ys)"
    and "sum_list ys / real (length ys) \<le> Max (set ys)"
proof -
  have n: "0 < real (length ys)"
    using assms by simp
  have "real (length ys) * Min (set ys) \<le> sum_list ys"
    by (rule sum_list_ge_length_times) simp
  with n show "Min (set ys) \<le> sum_list ys / real (length ys)"
    by (simp add: field_simps)
  have "sum_list ys \<le> real (length ys) * Max (set ys)"
    by (rule sum_list_le_length_times) simp
  with n show "sum_list ys / real (length ys) \<le> Max (set ys)"
    by (simp add: field_simps)
qed

lemma length_filter_le_mono:
  "(\<And>x. x \<in> set xs \<Longrightarrow> P x \<Longrightarrow> Q x) \<Longrightarrow> length (filter P xs) \<le> length (filter Q xs)"
  by (induction xs) auto

section \<open>A sliding window over a list\<close>

lemma tl_drop_snoc:
  assumes "k \<le> length xs"
  shows "tl (drop (length xs - k) xs @ [x]) = drop (Suc (length xs) - k) (xs @ [x])"
proof (cases "k = 0")
  case True
  then show ?thesis by simp
next
  case False
  with assms have d: "length xs - k < length xs" "Suc (length xs) - k = Suc (length xs - k)"
    by simp_all
  then have "tl (drop (length xs - k) xs @ [x]) = tl (drop (length xs - k) xs) @ [x]"
    by (simp add: tl_append split: list.splits)
  also have "\<dots> = drop (Suc (length xs - k)) xs @ [x]"
    by (simp add: drop_Suc tl_drop)
  finally show ?thesis
    using d by simp
qed

lemma take_rev_window:
  assumes "k \<le> m"
  shows "take k (rev (drop (length xs - m) xs)) = take k (rev xs)"
proof -
  have "rev (drop (length xs - m) xs) = take m (rev xs)"
    by (simp add: take_rev)
  with assms show ?thesis
    by (simp add: min_def)
qed

end
