(* ===== verification/Binary64.thy ===== *)
theory Binary64
  imports FS_Prelude "HOL-Library.Log_Nat"
begin

text \<open>
  Rounding of a real number to the binary64 format, to nearest with ties to even, as
  every arithmetic operation of \<^verbatim>\<open>f64\<close> and the conversion of a decimal literal do it.
  The finite numbers of the format are the multiples \<open>m * 2 ^ k / 2 ^ 1074\<close> of the least
  subnormal number with \<open>m < 2 ^ 53\<close> that are below \<open>2 ^ 1024\<close>. A number is rounded on its
  magnitude scaled by \<open>2 ^ 1074\<close>: \<open>shift\<close> is the exponent \<open>k\<close> of the spacing of the format
  at that magnitude and \<open>rhe\<close> rounds the quotient to an integer. \<open>rnd\<close> does not look at
  the range; a result of magnitude \<open>2 ^ 1024\<close> or more is an overflow for the caller.
\<close>

section \<open>Definitions\<close>

definition rhe :: "real \<Rightarrow> int" where
  "rhe y =
     (let f = \<lfloor>y\<rfloor>; d = y - of_int f
      in if d < 1 / 2 then f else if 1 / 2 < d then f + 1 else if even f then f else f + 1)"

definition shift :: "real \<Rightarrow> nat" where
  "shift a = nat (bitlen \<lfloor>a\<rfloor> - 53)"

definition mag :: "real \<Rightarrow> real" where
  "mag a = (let k = shift a in of_int (rhe (a / 2 ^ k)) * 2 ^ k)"

definition scale :: real where
  "scale = 2 ^ 1074"

definition rnd :: "real \<Rightarrow> real" where
  "rnd x = sgn x * (mag (\<bar>x\<bar> * scale) / scale)"

definition limit :: real where
  "limit = 2 ^ 1024"

definition rep64 :: "real \<Rightarrow> bool" where
  "rep64 x \<longleftrightarrow> rnd x = x \<and> \<bar>x\<bar> < limit"

text \<open>The unit roundoff and the least positive number of the format.\<close>

definition unit_roundoff :: real where
  "unit_roundoff = 1 / 2 ^ 53"

definition least_subnormal :: real where
  "least_subnormal = 1 / scale"

section \<open>Rounding to an integer\<close>

lemma rhe_cases: "rhe y = \<lfloor>y\<rfloor> \<or> rhe y = \<lfloor>y\<rfloor> + 1"
  by (simp add: rhe_def Let_def)

lemma rhe_of_int [simp]: "rhe (of_int i) = i"
  by (simp add: rhe_def)

lemma rhe_error: "\<bar>of_int (rhe y) - y\<bar> \<le> 1 / 2"
  unfolding rhe_def Let_def by (auto simp: abs_le_iff)

lemma rhe_unique:
  assumes "\<bar>y - of_int i\<bar> < 1 / 2"
  shows "rhe y = i"
proof -
  from rhe_error [of y] assms have "\<bar>real_of_int (rhe y) - real_of_int i\<bar> < 1"
    by linarith
  then have "\<bar>real_of_int (rhe y - i)\<bar> < real_of_int 1"
    by simp
  then have "\<bar>rhe y - i\<bar> < 1"
    by (simp only: of_int_abs [symmetric] of_int_less_iff)
  then show ?thesis
    by simp
qed

lemma rhe_mono:
  assumes "y \<le> z"
  shows "rhe y \<le> rhe z"
proof (cases "\<lfloor>y\<rfloor> = \<lfloor>z\<rfloor>")
  case True
  with assms show ?thesis
    by (auto simp: rhe_def Let_def)
next
  case False
  with assms have "\<lfloor>y\<rfloor> + 1 \<le> \<lfloor>z\<rfloor>"
    using floor_mono [OF assms] by simp
  with rhe_cases [of y] rhe_cases [of z] show ?thesis
    by auto
qed

lemma rhe_ge: "of_int i \<le> y \<Longrightarrow> i \<le> rhe y"
  using rhe_mono [of "of_int i" y] by simp

lemma rhe_le: "y \<le> of_int i \<Longrightarrow> rhe y \<le> i"
  using rhe_mono [of y "of_int i"] by simp

lemma rhe_nonneg: "0 \<le> y \<Longrightarrow> 0 \<le> rhe y"
  using rhe_ge [of 0 y] by simp

section \<open>The spacing at a magnitude\<close>

lemma shift_upper:
  assumes "0 \<le> a"
  shows "a < 2 ^ 53 * 2 ^ shift a"
proof (cases "0 < \<lfloor>a\<rfloor>")
  case True
  from bitlen_bounds [OF True] have "\<lfloor>a\<rfloor> + 1 \<le> 2 ^ nat (bitlen \<lfloor>a\<rfloor>)"
    by simp
  then have "of_int (\<lfloor>a\<rfloor> + 1) \<le> (2 :: real) ^ nat (bitlen \<lfloor>a\<rfloor>)"
    by (metis of_int_le_iff of_int_numeral of_int_power)
  then have "a < 2 ^ nat (bitlen \<lfloor>a\<rfloor>)"
    by linarith
  also have "(2 :: real) ^ nat (bitlen \<lfloor>a\<rfloor>) \<le> 2 ^ (53 + shift a)"
    by (rule power_increasing) (simp_all add: shift_def)
  finally show ?thesis
    by (simp add: power_add)
next
  case False
  then have "a < 1"
    by linarith
  also have "(1 :: real) \<le> 2 ^ (53 + shift a)"
    by (rule one_le_power) simp
  finally show ?thesis
    by (simp add: power_add)
qed

lemma shift_lower:
  assumes "0 < shift a"
  shows "2 ^ 52 * 2 ^ shift a \<le> a"
proof -
  from assms have b: "53 < bitlen \<lfloor>a\<rfloor>"
    by (simp add: shift_def)
  then have "0 < \<lfloor>a\<rfloor>"
    by (metis bitlen_eq_zero_iff bitlen_nonneg not_less not_numeral_less_zero order.strict_trans2 less_le)
  from bitlen_bounds [OF this] have "2 ^ nat (bitlen \<lfloor>a\<rfloor> - 1) \<le> \<lfloor>a\<rfloor>"
    by simp
  moreover from b have "nat (bitlen \<lfloor>a\<rfloor> - 1) = 52 + shift a"
    by (simp add: shift_def)
  ultimately have "(2 :: int) ^ (52 + shift a) \<le> \<lfloor>a\<rfloor>"
    by simp
  then have "(2 :: real) ^ (52 + shift a) \<le> of_int \<lfloor>a\<rfloor>"
    by (metis of_int_le_iff of_int_numeral of_int_power)
  then show ?thesis
    by (simp add: power_add) linarith
qed

lemma shift_le:
  assumes "a < 2 ^ 53 * 2 ^ k"
  shows "shift a \<le> k"
proof -
  from assms have "a < 2 ^ (53 + k)"
    by (simp add: power_add)
  then have "of_int \<lfloor>a\<rfloor> < (2 :: real) ^ (53 + k)"
    by linarith
  then have "\<lfloor>a\<rfloor> < 2 ^ (53 + k)"
    by (metis of_int_less_iff of_int_numeral of_int_power)
  then have "bitlen \<lfloor>a\<rfloor> \<le> int (53 + k)"
    by (simp only: bitlen_le_iff_power nat_int of_nat_0_le_iff simp_thms)
  then show ?thesis
    by (simp add: shift_def)
qed

lemma shift_mono: "0 \<le> b \<Longrightarrow> a \<le> b \<Longrightarrow> shift a \<le> shift b"
  using shift_upper [of b] by (intro shift_le) simp

lemma shift_eq:
  assumes "2 ^ 52 * 2 ^ k \<le> a" "a < 2 ^ 53 * 2 ^ k"
  shows "shift a = k"
proof (rule antisym)
  from assms(2) show "shift a \<le> k"
    by (rule shift_le)
  show "k \<le> shift a"
  proof (rule ccontr)
    assume "\<not> k \<le> shift a"
    then have "Suc (shift a) \<le> k"
      by simp
    then have "(2 :: real) ^ Suc (shift a) \<le> 2 ^ k"
      by (intro power_increasing) simp_all
    then have "(2 :: real) ^ 53 * 2 ^ shift a \<le> 2 ^ 52 * 2 ^ k"
      by simp
    moreover from assms(1) have "0 \<le> a"
      by (rule order_trans [rotated]) simp
    ultimately show False
      using shift_upper [of a] assms(1) by linarith
  qed
qed

lemma shift_small: "a < 2 ^ 53 \<Longrightarrow> shift a = 0"
  using shift_le [of a 0] by simp

section \<open>Rounding a scaled magnitude\<close>

lemma quotient_bounds:
  assumes "0 \<le> a"
  shows "0 \<le> a / 2 ^ shift a" "a / 2 ^ shift a \<le> 2 ^ 53"
    and "0 < shift a \<Longrightarrow> 2 ^ 52 \<le> a / 2 ^ shift a"
  using assms shift_upper [OF assms] shift_lower [of a]
  by (simp_all add: field_simps)

lemma mantissa_bounds:
  assumes "0 \<le> a"
  shows "0 \<le> rhe (a / 2 ^ shift a)" "rhe (a / 2 ^ shift a) \<le> 2 ^ 53"
    and "0 < shift a \<Longrightarrow> 2 ^ 52 \<le> rhe (a / 2 ^ shift a)"
proof -
  show "0 \<le> rhe (a / 2 ^ shift a)"
    by (rule rhe_nonneg) (rule quotient_bounds [OF assms])
  have "a / 2 ^ shift a \<le> of_int (2 ^ 53)"
    using quotient_bounds(2) [OF assms] by simp
  then show "rhe (a / 2 ^ shift a) \<le> 2 ^ 53"
    by (rule rhe_le)
  assume "0 < shift a"
  then have "of_int (2 ^ 52) \<le> a / 2 ^ shift a"
    using quotient_bounds(3) [OF assms] by simp
  then show "2 ^ 52 \<le> rhe (a / 2 ^ shift a)"
    by (rule rhe_ge)
qed

lemma mag_0 [simp]: "mag 0 = 0"
  using rhe_of_int [of 0] by (simp add: mag_def del: rhe_of_int)

lemma mag_nonneg: "0 \<le> a \<Longrightarrow> 0 \<le> mag a"
  using mantissa_bounds(1) [of a] by (simp add: mag_def Let_def)

lemma mag_mono:
  assumes "0 \<le> a" "a \<le> b"
  shows "mag a \<le> mag b"
proof (cases "shift a = shift b")
  case True
  from assms have "a / 2 ^ shift b \<le> b / 2 ^ shift b"
    by (simp add: divide_right_mono)
  from rhe_mono [OF this] show ?thesis
    by (simp add: mag_def Let_def True)
next
  case False
  from assms have b: "0 \<le> b"
    by simp
  from False shift_mono [OF b assms(2)] have k: "shift a < shift b"
    by simp
  have "mag a \<le> 2 ^ 53 * 2 ^ shift a"
    using mantissa_bounds(2) [OF assms(1)] by (simp add: mag_def Let_def)
  also have "\<dots> = 2 ^ 52 * 2 ^ Suc (shift a)"
    by simp
  also have "\<dots> \<le> 2 ^ 52 * 2 ^ shift b"
    using k by (intro mult_left_mono power_increasing) simp_all
  also have "\<dots> \<le> mag b"
    using mantissa_bounds(3) [OF b] k by (simp add: mag_def Let_def)
  finally show ?thesis .
qed

lemma mag_exact:
  assumes "0 \<le> m" "m < 2 ^ 53"
  shows "mag (of_int m * 2 ^ j) = of_int m * 2 ^ j"
proof -
  define a where "a = of_int m * (2 :: real) ^ j"
  define k where "k = shift a"
  from assms(2) have "a < 2 ^ 53 * 2 ^ j"
    by (simp add: a_def)
  then have "k \<le> j"
    unfolding k_def by (rule shift_le)
  then obtain d where d: "j = k + d"
    by (auto simp: le_iff_add)
  then have "a / 2 ^ k = of_int (m * 2 ^ d)"
    by (simp add: a_def power_add)
  then have "rhe (a / 2 ^ k) = m * 2 ^ d"
    by (simp only: rhe_of_int)
  then have "mag a = a"
    by (simp add: mag_def Let_def k_def [symmetric]) (simp add: a_def d power_add)
  then show ?thesis
    by (simp add: a_def)
qed

lemma mag_error:
  assumes "0 \<le> a"
  shows "\<bar>mag a - a\<bar> \<le> 2 ^ shift a / 2"
proof -
  have "mag a - a = (of_int (rhe (a / 2 ^ shift a)) - a / 2 ^ shift a) * 2 ^ shift a"
    by (simp add: mag_def Let_def algebra_simps)
  then have "\<bar>mag a - a\<bar> = \<bar>of_int (rhe (a / 2 ^ shift a)) - a / 2 ^ shift a\<bar> * 2 ^ shift a"
    by (simp add: abs_mult)
  also have "\<dots> \<le> 1 / 2 * 2 ^ shift a"
    by (intro mult_right_mono rhe_error) simp
  finally show ?thesis
    by simp
qed

lemma mag_error_relative:
  assumes "0 \<le> a" "0 < shift a \<or> a \<in> \<int>"
  shows "\<bar>mag a - a\<bar> \<le> a / 2 ^ 53"
proof (cases "0 < shift a")
  case True
  from shift_lower [OF True] have "2 ^ shift a / 2 \<le> a / 2 ^ 53"
    by (simp add: field_simps)
  with mag_error [OF assms(1)] show ?thesis
    by simp
next
  case False
  with assms(2) obtain i where i: "a = of_int i"
    by (auto elim: Ints_cases)
  with False have "mag a = a"
    by (simp add: mag_def)
  with assms(1) show ?thesis
    by simp
qed

lemma mag_error_large:
  assumes "2 ^ 52 \<le> a"
  shows "\<bar>mag a - a\<bar> \<le> a / 2 ^ 53"
proof (cases "0 < shift a")
  case True
  with assms show ?thesis
    by (intro mag_error_relative) simp_all
next
  case False
  from assms have "0 \<le> a"
    by simp
  from mag_error [OF this] False assms show ?thesis
    by simp
qed

lemma mag_grid:
  assumes "0 \<le> a"
  shows "\<exists>m j. 0 \<le> m \<and> m < 2 ^ 53 \<and> mag a = of_int m * 2 ^ j"
proof -
  define m where "m = rhe (a / 2 ^ shift a)"
  have mag: "mag a = of_int m * 2 ^ shift a"
    by (simp add: mag_def Let_def m_def)
  from mantissa_bounds(1,2) [OF assms] have m: "0 \<le> m" "m \<le> 2 ^ 53"
    by (simp_all only: m_def)
  show ?thesis
  proof (cases "m = 2 ^ 53")
    case True
    have "mag a = of_int (2 ^ 52) * 2 ^ Suc (shift a)"
      unfolding mag True by simp
    moreover have "(0::int) \<le> 2 ^ 52" "(2::int) ^ 52 < 2 ^ 53"
      by simp_all
    ultimately show ?thesis
      by blast
  next
    case False
    with m have "m < 2 ^ 53"
      by linarith
    with m(1) mag show ?thesis
      by blast
  qed
qed

lemma mag_idem:
  assumes "0 \<le> a"
  shows "mag (mag a) = mag a"
proof -
  from mag_grid [OF assms] obtain m j
    where m: "0 \<le> m" "m < 2 ^ 53" and eq: "mag a = of_int m * 2 ^ j"
    by blast
  show ?thesis
    unfolding eq using m by (rule mag_exact)
qed

section \<open>Rounding a real number\<close>

lemma scale_pos [simp]: "0 < scale"
  by (simp add: scale_def)

lemma scale_nonneg [simp]: "0 \<le> scale"
  by (simp add: scale_def)

lemma scale_nonzero [simp]: "scale \<noteq> 0"
  by (simp add: scale_def)

lemma scale_not_le_0 [simp]: "\<not> scale \<le> 0"
  by (simp add: scale_def)

lemma unit_roundoff_pos [simp]: "0 < unit_roundoff" "0 \<le> unit_roundoff"
  by (simp_all add: unit_roundoff_def)

lemma least_subnormal_pos [simp]: "0 < least_subnormal" "0 \<le> least_subnormal"
  by (simp_all add: least_subnormal_def)

lemma rnd_0 [simp]: "rnd 0 = 0"
  by (simp add: rnd_def)

lemma rnd_minus: "rnd (- x) = - rnd x"
  by (simp add: rnd_def sgn_minus)

lemma rnd_nonneg_eq: "0 \<le> x \<Longrightarrow> rnd x = mag (x * scale) / scale"
  by (cases "x = 0") (simp_all add: rnd_def)

lemma rnd_nonneg: "0 \<le> x \<Longrightarrow> 0 \<le> rnd x"
  by (simp add: rnd_nonneg_eq mag_nonneg)

lemma rnd_nonpos: "x \<le> 0 \<Longrightarrow> rnd x \<le> 0"
  using rnd_nonneg [of "- x"] by (simp add: rnd_minus)

lemma rnd_mono_nonneg:
  assumes "0 \<le> x" and "x \<le> y"
  shows "rnd x \<le> rnd y"
proof -
  from assms have "mag (x * scale) \<le> mag (y * scale)"
    by (intro mag_mono mult_right_mono) simp_all
  with assms show ?thesis
    by (simp add: rnd_nonneg_eq divide_right_mono)
qed

lemma rnd_mono:
  assumes "x \<le> y"
  shows "rnd x \<le> rnd y"
proof -
  consider "0 \<le> x" | "x < 0" "0 \<le> y" | "y < 0"
    by linarith
  then show ?thesis
  proof cases
    case 1
    then show ?thesis
      using assms by (rule rnd_mono_nonneg)
  next
    case 2
    with rnd_nonpos [of x] rnd_nonneg [of y] show ?thesis
      by simp
  next
    case 3
    with assms rnd_mono_nonneg [of "- y" "- x"] show ?thesis
      by (simp add: rnd_minus)
  qed
qed

lemma rnd_abs: "\<bar>rnd x\<bar> = rnd \<bar>x\<bar>"
proof (cases "0 \<le> x")
  case True
  with rnd_nonneg [of x] show ?thesis
    by simp
next
  case False
  with rnd_nonpos [of x] show ?thesis
    by (simp add: rnd_minus)
qed

lemma rnd_idem [simp]: "rnd (rnd x) = rnd x"
proof -
  have pos: "rnd (rnd u) = rnd u" if "0 \<le> u" for u
    using that by (simp add: rnd_nonneg_eq mag_nonneg mag_idem)
  show ?thesis
    using pos [of x] pos [of "- x"] by (cases "0 \<le> x") (simp_all add: rnd_minus)
qed

lemma rnd_error_abs: "\<bar>rnd x - x\<bar> = \<bar>mag (\<bar>x\<bar> * scale) - \<bar>x\<bar> * scale\<bar> / scale"
proof -
  have pos: "\<bar>rnd u - u\<bar> = \<bar>mag (u * scale) - u * scale\<bar> / scale" if "0 \<le> u" for u
  proof -
    have "rnd u - u = (mag (u * scale) - u * scale) / scale"
      using that by (simp add: rnd_nonneg_eq diff_divide_distrib)
    then show ?thesis
      by simp
  qed
  show ?thesis
  proof (cases "0 \<le> x")
    case True
    then show ?thesis
      by (simp add: pos)
  next
    case False
    then have "\<bar>rnd x - x\<bar> = \<bar>rnd (- x) - (- x)\<bar>"
      by (simp add: rnd_minus)
    with False pos [of "- x"] show ?thesis
      by simp
  qed
qed

text \<open>
  The error of rounding: at most half the spacing, which is a relative error of the unit
  roundoff except for numbers below the normal range that are not multiples of the least
  subnormal number.
\<close>

lemma rnd_error: "\<bar>rnd x - x\<bar> \<le> unit_roundoff * \<bar>x\<bar> + least_subnormal / 2"
proof -
  let ?a = "\<bar>x\<bar> * scale"
  have a: "0 \<le> ?a"
    by simp
  have "\<bar>mag ?a - ?a\<bar> \<le> ?a / 2 ^ 53 + 1 / 2"
  proof (cases "0 < shift ?a")
    case True
    with mag_error_relative [OF a] have "\<bar>mag ?a - ?a\<bar> \<le> ?a / 2 ^ 53"
      by simp
    then show ?thesis
      by simp
  next
    case False
    with mag_error [OF a] have "\<bar>mag ?a - ?a\<bar> \<le> 1 / 2"
      by simp
    moreover have "0 \<le> ?a / 2 ^ 53"
      by simp
    ultimately show ?thesis
      by linarith
  qed
  then have "\<bar>mag ?a - ?a\<bar> / scale \<le> (?a / 2 ^ 53 + 1 / 2) / scale"
    by (rule divide_right_mono) simp
  also have "\<dots> = unit_roundoff * \<bar>x\<bar> + least_subnormal / 2"
    by (simp add: add_divide_distrib unit_roundoff_def least_subnormal_def)
  finally show ?thesis
    by (simp only: rnd_error_abs)
qed

lemma rnd_error_relative:
  assumes "x * scale \<in> \<int> \<or> 2 ^ 52 \<le> \<bar>x\<bar> * scale"
  shows "\<bar>rnd x - x\<bar> \<le> unit_roundoff * \<bar>x\<bar>"
proof -
  let ?a = "\<bar>x\<bar> * scale"
  have a: "0 \<le> ?a"
    by simp
  from assms have "?a \<in> \<int> \<or> 2 ^ 52 \<le> ?a"
  proof
    assume "x * scale \<in> \<int>"
    then have "\<bar>x * scale\<bar> \<in> \<int>"
      by (rule Ints_abs)
    then show ?thesis
      by (simp add: abs_mult)
  qed simp
  then have "\<bar>mag ?a - ?a\<bar> \<le> ?a / 2 ^ 53"
    using mag_error_relative [OF a] mag_error_large [of ?a] by blast
  then have "\<bar>mag ?a - ?a\<bar> / scale \<le> ?a / 2 ^ 53 / scale"
    by (rule divide_right_mono) simp
  also have "\<dots> = unit_roundoff * \<bar>x\<bar>"
    by (simp add: unit_roundoff_def)
  finally show ?thesis
    by (simp only: rnd_error_abs)
qed

section \<open>Fixed points of rounding\<close>

lemma rnd_fixedI:
  assumes "0 \<le> m" "m < 2 ^ 53" "\<bar>x\<bar> * scale = of_int m * 2 ^ j"
  shows "rnd x = x"
proof -
  have "mag (\<bar>x\<bar> * scale) = \<bar>x\<bar> * scale"
    unfolding assms(3) using assms(1,2) by (rule mag_exact)
  then have "rnd x = sgn x * \<bar>x\<bar>"
    by (simp add: rnd_def)
  then show ?thesis
    by (simp add: sgn_mult_abs)
qed

lemma rnd_fixedE:
  assumes "rnd x = x"
  obtains m j where "0 \<le> m" "m < 2 ^ 53" "\<bar>x\<bar> * scale = of_int m * 2 ^ j"
proof -
  from assms have "rnd \<bar>x\<bar> = \<bar>x\<bar>"
    using rnd_abs [of x] by simp
  then have "mag (\<bar>x\<bar> * scale) / scale = \<bar>x\<bar>"
    by (simp add: rnd_nonneg_eq)
  then have "mag (\<bar>x\<bar> * scale) = \<bar>x\<bar> * scale"
    by (simp add: nonzero_divide_eq_eq)
  with mag_grid [of "\<bar>x\<bar> * scale"] that show ?thesis
    by auto
qed

lemma abs_Ints: "\<bar>y :: real\<bar> \<in> \<int> \<Longrightarrow> y \<in> \<int>"
  by (cases "0 \<le> y") (auto simp: abs_if dest: Ints_minus)

lemma rnd_fixed_grid:
  assumes "rnd x = x"
  shows "x * scale \<in> \<int>"
proof -
  from assms obtain m j where "\<bar>x\<bar> * scale = of_int m * 2 ^ j"
    by (rule rnd_fixedE)
  then have "\<bar>x * scale\<bar> = of_int (m * 2 ^ j)"
    by (simp add: abs_mult)
  then have "\<bar>x * scale\<bar> \<in> \<int>"
    by (simp only: Ints_of_int)
  then show ?thesis
    by (rule abs_Ints)
qed

lemma rnd_pow2_mult:
  assumes "rnd x = x"
  shows "rnd (2 ^ k * x) = 2 ^ k * x"
proof -
  from assms obtain m j where m: "0 \<le> m" "m < 2 ^ 53" and x: "\<bar>x\<bar> * scale = of_int m * 2 ^ j"
    by (rule rnd_fixedE)
  have "\<bar>2 ^ k * x\<bar> * scale = 2 ^ k * (\<bar>x\<bar> * scale)"
    by (simp add: abs_mult)
  also have "\<dots> = of_int m * 2 ^ (j + k)"
    by (simp add: x power_add)
  finally show ?thesis
    by (rule rnd_fixedI [OF m])
qed

lemma rnd_double: "rnd x = x \<Longrightarrow> rnd (2 * x) = 2 * x"
  using rnd_pow2_mult [of x 1] by simp

lemma rnd_dyadic:
  assumes "\<bar>i\<bar> \<le> 2 ^ 53" "j \<le> 1074"
  shows "rnd (of_int i / 2 ^ j) = of_int i / 2 ^ j"
proof -
  have "\<bar>of_int i / 2 ^ j\<bar> * scale = of_int \<bar>i\<bar> * (2 ^ 1074 / 2 ^ j)"
    by (simp add: scale_def)
  also have "(2 :: real) ^ 1074 / 2 ^ j = 2 ^ (1074 - j)"
    using assms(2) by (simp add: power_diff)
  finally have eq: "\<bar>of_int i / 2 ^ j\<bar> * scale = of_int \<bar>i\<bar> * 2 ^ (1074 - j)" .
  show ?thesis
  proof (cases "\<bar>i\<bar> = 2 ^ 53")
    case True
    have "\<bar>of_int i / 2 ^ j\<bar> * scale = of_int (2 ^ 52) * 2 ^ Suc (1074 - j)"
      unfolding eq True by simp
    then show ?thesis
      by (rule rnd_fixedI [rotated 2]) simp_all
  next
    case False
    with assms(1) have "\<bar>i\<bar> < 2 ^ 53"
      by linarith
    from rnd_fixedI [OF _ this eq] show ?thesis
      by simp
  qed
qed

lemma rnd_of_int: "\<bar>i\<bar> \<le> 2 ^ 53 \<Longrightarrow> rnd (of_int i) = of_int i"
  using rnd_dyadic [of i 0] by simp

lemma rnd_pow2 [simp]: "rnd (2 ^ k) = 2 ^ k"
  using rnd_pow2_mult [of 1 k] rnd_of_int [of 1] by simp

lemma rnd_limit [simp]: "rnd limit = limit"
  by (simp only: limit_def rnd_pow2)

lemma rnd_abs_le_pow2:
  assumes "\<bar>x\<bar> \<le> 2 ^ k"
  shows "\<bar>rnd x\<bar> \<le> 2 ^ k"
proof -
  from assms have "rnd \<bar>x\<bar> \<le> rnd (2 ^ k)"
    by (rule rnd_mono)
  then show ?thesis
    by (simp add: rnd_abs)
qed

lemma rnd_between:
  assumes "rnd l = l" "rnd r = r" "l \<le> x" "x \<le> r"
  shows "l \<le> rnd x" "rnd x \<le> r"
  using rnd_mono [OF assms(3)] rnd_mono [OF assms(4)] assms(1,2) by simp_all

section \<open>Evaluating a rounding\<close>

lemma mag_eval:
  assumes "2 ^ 52 * 2 ^ k \<le> a" "a < 2 ^ 53 * 2 ^ k"
  shows "mag a = of_int (rhe (a / 2 ^ k)) * 2 ^ k"
  using shift_eq [OF assms] by (simp add: mag_def)

lemma rnd_scaled:
  assumes "2 ^ 52 \<le> q" "q < 2 ^ 53" "x * scale = q * 2 ^ k"
  shows "rnd x = of_int (rhe q) * 2 ^ k / scale"
proof -
  from assms(1) have "0 \<le> q * 2 ^ k"
    by simp
  then have "0 \<le> x * scale"
    by (simp only: assms(3))
  then have pos: "0 \<le> x"
    by (simp add: zero_le_mult_iff)
  from assms(1,2) have "mag (q * 2 ^ k) = of_int (rhe (q * 2 ^ k / 2 ^ k)) * 2 ^ k"
    by (intro mag_eval) simp_all
  then show ?thesis
    by (simp add: rnd_nonneg_eq [OF pos] assms(3))
qed

lemma rnd_scaled_down:
  assumes "2 ^ 52 \<le> q" "q < 2 ^ 53" "j \<le> 1074"
  shows "rnd (q / 2 ^ j) = of_int (rhe q) / 2 ^ j"
proof -
  from assms(3) obtain k where k: "1074 = j + k"
    by (auto simp: le_iff_add)
  have scale: "scale = 2 ^ j * 2 ^ k"
    by (simp only: scale_def k power_add)
  have "q / 2 ^ j * scale = q * 2 ^ k"
    by (simp add: scale)
  from rnd_scaled [OF assms(1,2) this] show ?thesis
    by (simp add: scale)
qed

lemma rnd_scaled_up:
  assumes "2 ^ 52 \<le> q" "q < 2 ^ 53"
  shows "rnd (q * 2 ^ j) = of_int (rhe q) * 2 ^ j"
proof -
  have "q * 2 ^ j * scale = q * 2 ^ (j + 1074)"
    by (simp add: scale_def power_add)
  from rnd_scaled [OF assms this] show ?thesis
    by (simp add: scale_def power_add)
qed

section \<open>Representable numbers\<close>

lemma limit_pos [simp]: "0 < limit"
  by (simp add: limit_def)

lemma limit_not_le_0 [simp]: "\<not> limit \<le> 0"
  by (simp add: limit_def)

lemma pow2_less_limit: "k < 1024 \<Longrightarrow> 2 ^ k < limit"
  unfolding limit_def by (rule power_strict_increasing) simp_all

lemma rep64_fixed [simp]: "rep64 x \<Longrightarrow> rnd x = x"
  by (simp add: rep64_def)

lemma rep64_0 [simp]: "rep64 0"
  by (simp add: rep64_def)

lemma rep64_minus [simp]: "rep64 (- x) \<longleftrightarrow> rep64 x"
  by (auto simp: rep64_def rnd_minus)

lemma rep64_abs [simp]: "rep64 \<bar>x\<bar> \<longleftrightarrow> rep64 x"
  by (cases "0 \<le> x") simp_all

lemma rep64_rnd: "\<bar>rnd x\<bar> < limit \<Longrightarrow> rep64 (rnd x)"
  by (simp add: rep64_def)

lemma rep64_grid: "rep64 x \<Longrightarrow> x * scale \<in> \<int>"
  by (simp add: rep64_def rnd_fixed_grid)

lemma rep64_dyadic:
  assumes "\<bar>i\<bar> \<le> 2 ^ 53" "j \<le> 1074"
  shows "rep64 (of_int i / 2 ^ j)"
proof -
  from assms(1) have "\<bar>real_of_int i\<bar> \<le> 2 ^ 53"
    by (metis of_int_abs of_int_le_iff of_int_numeral of_int_power)
  moreover have "\<bar>real_of_int i\<bar> / 2 ^ j \<le> \<bar>real_of_int i\<bar> / 1"
    by (intro divide_left_mono) simp_all
  ultimately have "\<bar>real_of_int i / 2 ^ j\<bar> \<le> 2 ^ 53"
    by simp
  also have "(2 :: real) ^ 53 < limit"
    by (rule pow2_less_limit) simp
  finally show ?thesis
    using rnd_dyadic [OF assms] by (simp add: rep64_def)
qed

lemma rep64_of_int: "\<bar>i\<bar> \<le> 2 ^ 53 \<Longrightarrow> rep64 (of_int i)"
  using rep64_dyadic [of i 0] by simp

lemma rep64_of_nat:
  assumes "n \<le> 2 ^ 53"
  shows "rep64 (real n)"
proof -
  from assms have "int n \<le> int (2 ^ 53)"
    by (simp only: of_nat_le_iff)
  then have "\<bar>int n\<bar> \<le> 2 ^ 53"
    by simp
  from rep64_of_int [OF this] show ?thesis
    by simp
qed

lemma rep64_numeral [simp]: "numeral n \<le> (2 :: int) ^ 53 \<Longrightarrow> rep64 (numeral n)"
  using rep64_of_int [of "numeral n"] by simp

lemma rep64_1 [simp]: "rep64 1"
  using rep64_of_int [of 1] by simp

text \<open>Fractions with a small power of two below are representable as well.\<close>

lemma rep64_fraction:
  assumes "numeral n \<le> (2 :: int) ^ 53"
  shows "rep64 (numeral n / 2)" "rep64 (numeral n / 4)" "rep64 (numeral n / 8)"
    "rep64 (numeral n / 16)"
  using rep64_dyadic [OF _ _, of "numeral n" 1] rep64_dyadic [OF _ _, of "numeral n" 2]
    rep64_dyadic [OF _ _, of "numeral n" 3] rep64_dyadic [OF _ _, of "numeral n" 4] assms
  by simp_all

lemma rep64_unit_fraction: "rep64 (1 / 2)" "rep64 (1 / 4)" "rep64 (1 / 8)" "rep64 (1 / 16)"
  using rep64_dyadic [of 1 1] rep64_dyadic [of 1 2] rep64_dyadic [of 1 3] rep64_dyadic [of 1 4]
  by simp_all

lemmas rep64_simps = rep64_fraction rep64_unit_fraction

text \<open>A number with \<open>j\<close> binary digits after the point and at most \<open>53\<close> digits in all.\<close>

lemma rep64_frac:
  assumes "x * 2 ^ j \<in> \<int>" "\<bar>x * 2 ^ j\<bar> \<le> 2 ^ 53" "j \<le> 1074"
  shows "rep64 x"
proof -
  from assms(1) obtain i where i: "x * 2 ^ j = of_int i"
    by (auto elim: Ints_cases)
  with assms(2) have "\<bar>real_of_int i\<bar> \<le> 2 ^ 53"
    by simp
  then have "\<bar>i\<bar> \<le> 2 ^ 53"
    by (metis of_int_abs of_int_le_iff of_int_numeral of_int_power)
  from rep64_dyadic [OF this assms(3)] i [symmetric] show ?thesis
    by simp
qed

text \<open>
  A number of magnitude \<open>2 ^ 1023\<close> or less does not overflow when it is rounded, and the
  sum and the difference of two representable numbers are rounded with a relative error
  of the unit roundoff at most, because they are multiples of the least subnormal number.
\<close>

lemma small_in_range: "\<bar>x\<bar> \<le> 2 ^ 53 \<Longrightarrow> \<bar>x\<bar> < limit"
  using pow2_less_limit [of 53] by simp

lemma rnd_in_range:
  assumes "\<bar>x\<bar> \<le> 2 ^ 1023"
  shows "\<bar>rnd x\<bar> < limit"
proof -
  from assms have "\<bar>rnd x\<bar> \<le> 2 ^ 1023"
    by (rule rnd_abs_le_pow2)
  also have "(2 :: real) ^ 1023 < limit"
    by (rule pow2_less_limit) simp
  finally show ?thesis .
qed

lemma rnd_div_in_range:
  assumes "rnd s = s" "\<bar>s\<bar> < limit" "1 \<le> c"
  shows "\<bar>rnd (s / c)\<bar> < limit"
proof -
  from assms(3) have "\<bar>s\<bar> / c \<le> \<bar>s\<bar> / 1"
    by (intro divide_left_mono) simp_all
  with assms(3) have "\<bar>s / c\<bar> \<le> \<bar>s\<bar>"
    by simp
  then have "rnd \<bar>s / c\<bar> \<le> rnd \<bar>s\<bar>"
    by (rule rnd_mono)
  then have "\<bar>rnd (s / c)\<bar> \<le> \<bar>s\<bar>"
    by (simp only: rnd_abs [symmetric] assms(1))
  with assms(2) show ?thesis
    by simp
qed

lemma rnd_add_error:
  assumes "rnd x = x" "rnd y = y"
  shows "\<bar>rnd (x + y) - (x + y)\<bar> \<le> unit_roundoff * \<bar>x + y\<bar>"
proof -
  from assms have "x * scale + y * scale \<in> \<int>"
    by (intro Ints_add rnd_fixed_grid)
  then have "(x + y) * scale \<in> \<int>"
    by (simp only: distrib_right)
  then show ?thesis
    by (intro rnd_error_relative) simp
qed

lemma rnd_diff_error:
  assumes "rnd x = x" "rnd y = y"
  shows "\<bar>rnd (x - y) - (x - y)\<bar> \<le> unit_roundoff * \<bar>x - y\<bar>"
  using rnd_add_error [of x "- y"] assms by (simp add: rnd_minus)

lemma rnd_add_bound:
  assumes "rnd x = x" "rnd y = y"
  shows "\<bar>rnd (x + y)\<bar> \<le> (1 + unit_roundoff) * \<bar>x + y\<bar>"
proof -
  have "(1 + unit_roundoff) * \<bar>x + y\<bar> = \<bar>x + y\<bar> + unit_roundoff * \<bar>x + y\<bar>"
    by (simp add: algebra_simps)
  with rnd_add_error [OF assms] show ?thesis
    by linarith
qed

lemma rep64_scaled:
  assumes "\<bar>i\<bar> < 2 ^ 53" "k \<le> 971"
  shows "rep64 (of_int i * 2 ^ k)"
proof -
  from assms(1) have "\<bar>real_of_int i\<bar> < 2 ^ 53"
    by (metis of_int_abs of_int_less_iff of_int_numeral of_int_power)
  then have "\<bar>real_of_int i\<bar> * 2 ^ k < 2 ^ 53 * 2 ^ k"
    by (rule mult_strict_right_mono) simp
  also have "(2 :: real) ^ 53 * 2 ^ k = 2 ^ (53 + k)"
    by (simp add: power_add)
  also from assms(2) have "(2 :: real) ^ (53 + k) \<le> limit"
    unfolding limit_def by (intro power_increasing) simp_all
  finally have "\<bar>real_of_int i * 2 ^ k\<bar> < limit"
    by (simp add: abs_mult)
  moreover from assms(1) have "rnd (2 ^ k * real_of_int i) = 2 ^ k * real_of_int i"
    by (intro rnd_pow2_mult rnd_of_int) simp
  ultimately show ?thesis
    by (simp add: rep64_def mult.commute)
qed

section \<open>Halving and the midpoint\<close>

lemma rnd_half_error:
  assumes "rnd x = x"
  shows "\<bar>rnd (x / 2) - x / 2\<bar> \<le> least_subnormal / 2"
proof -
  from assms obtain m j where m: "0 \<le> m" "m < 2 ^ 53" and x: "\<bar>x\<bar> * scale = of_int m * 2 ^ j"
    by (rule rnd_fixedE)
  show ?thesis
  proof (cases j)
    case 0
    let ?a = "\<bar>x / 2\<bar> * scale"
    from x 0 have a: "?a = of_int m / 2"
      by simp
    from m have "real_of_int m < 2 ^ 53"
      by (metis of_int_less_iff of_int_numeral of_int_power)
    with a have "?a < 2 ^ 53"
      by simp
    then have "shift ?a = 0"
      by (rule shift_small)
    with mag_error [of ?a] have "\<bar>mag ?a - ?a\<bar> \<le> 1 / 2"
      by simp
    then have "\<bar>mag ?a - ?a\<bar> / scale \<le> 1 / 2 / scale"
      by (rule divide_right_mono) simp
    moreover have "1 / 2 / scale = least_subnormal / 2"
      by (simp add: least_subnormal_def)
    ultimately show ?thesis
      by (simp only: rnd_error_abs)
  next
    case (Suc j')
    with x have "\<bar>x / 2\<bar> * scale = of_int m * 2 ^ j'"
      by simp
    from rnd_fixedI [OF m this] have "rnd (x / 2) - x / 2 = 0"
      by (simp only: diff_self)
    then show ?thesis
      by (simp only: abs_zero) simp
  qed
qed

lemma midpoint_between:
  assumes "rnd l = l" "rnd r = r" "l \<le> r"
  shows "l \<le> rnd (rnd (r + l) / 2)" "rnd (rnd (r + l) / 2) \<le> r"
proof -
  from assms(3) have "2 * l \<le> r + l" "r + l \<le> 2 * r"
    by simp_all
  from rnd_between [OF rnd_double [OF assms(1)] rnd_double [OF assms(2)] this]
  have "l \<le> rnd (r + l) / 2" "rnd (r + l) / 2 \<le> r"
    by simp_all
  from rnd_between [OF assms(1,2) this]
  show "l \<le> rnd (rnd (r + l) / 2)" "rnd (rnd (r + l) / 2) \<le> r" .
qed

lemma midpoint_error:
  assumes "rep64 l" "rep64 r"
  shows "\<bar>rnd (rnd (r + l) / 2) - (r + l) / 2\<bar>
           \<le> unit_roundoff * \<bar>r + l\<bar> / 2 + least_subnormal / 2"
proof -
  have "\<bar>rnd (rnd (r + l) / 2) - rnd (r + l) / 2\<bar> \<le> least_subnormal / 2"
    by (rule rnd_half_error) simp
  moreover from assms have "rnd r = r" "rnd l = l"
    by simp_all
  from rnd_add_error [OF this]
  have "\<bar>rnd (r + l) / 2 - (r + l) / 2\<bar> \<le> unit_roundoff * \<bar>r + l\<bar> / 2"
    by (simp add: diff_divide_distrib [symmetric])
  ultimately show ?thesis
    by linarith
qed

lemma midpoint_width:
  assumes "rep64 l" "rep64 r" "\<bar>l\<bar> \<le> M" "\<bar>r\<bar> \<le> M"
  shows "rnd (rnd (r + l) / 2) - l \<le> (r - l) / 2 + (unit_roundoff * M + least_subnormal / 2)"
    and "r - rnd (rnd (r + l) / 2) \<le> (r - l) / 2 + (unit_roundoff * M + least_subnormal / 2)"
proof -
  have "\<bar>r + l\<bar> \<le> \<bar>r\<bar> + \<bar>l\<bar>"
    by (rule abs_triangle_ineq)
  with assms(3,4) have "\<bar>r + l\<bar> \<le> 2 * M"
    by linarith
  then have "\<bar>r + l\<bar> / 2 \<le> M"
    by simp
  then have "unit_roundoff * (\<bar>r + l\<bar> / 2) \<le> unit_roundoff * M"
    by (rule mult_left_mono) simp
  then have "unit_roundoff * \<bar>r + l\<bar> / 2 \<le> unit_roundoff * M"
    by simp
  with midpoint_error [OF assms(1,2)]
  have e: "\<bar>rnd (rnd (r + l) / 2) - (r + l) / 2\<bar> \<le> unit_roundoff * M + least_subnormal / 2"
    by linarith
  from e show "rnd (rnd (r + l) / 2) - l \<le> (r - l) / 2 + (unit_roundoff * M + least_subnormal / 2)"
    by (simp add: abs_le_iff field_simps)
  from e show "r - rnd (rnd (r + l) / 2) \<le> (r - l) / 2 + (unit_roundoff * M + least_subnormal / 2)"
    by (simp add: abs_le_iff field_simps)
qed

lemma least_subnormal_le: "k \<le> 1074 \<Longrightarrow> least_subnormal \<le> 1 / 2 ^ k"
  unfolding least_subnormal_def scale_def
  by (intro divide_left_mono power_increasing) simp_all

end
