(* ===== verification/F64_Model.thy ===== *)
theory F64_Model
  imports Binary64 "HOL-Library.Product_Lexorder"
begin

text \<open>
  The values of \<^verbatim>\<open>f64\<close> and the operations \<^verbatim>\<open>src/main.rs\<close> applies to them. A value is a
  finite number, negative zero, an infinity or a NaN, the last two with their sign bit
  (\<open>True\<close> is negative). The special-value rules of IEEE 754 are written out case by
  case. The result of an operation on finite values is the exact result rounded to the
  format by \<open>round64\<close>: to nearest with ties to even, to an infinity when the rounded
  magnitude reaches \<open>2 ^ 1024\<close>, and to a zero with the sign of the exact result when it
  rounds to zero. \<open>Fin 0\<close> is positive zero. A NaN made by an invalid operation has the
  positive sign; NaN payloads are not distinguished.

  The theory gives the classification of values, the predicate \<open>wf64\<close> of the values
  that are numbers of the format, the arithmetic (\<open>fadd\<close>, \<open>fsub\<close>, \<open>fmul\<close>, \<open>fdiv\<close>,
  \<open>fpowi\<close>, \<open>fabs\<close>), the partial comparisons \<open>flt\<close> and \<open>fle\<close> of the operators \<^verbatim>\<open><\<close> and
  \<^verbatim>\<open><=\<close>, \<open>fmin\<close> and \<open>fmax\<close>, the total order of \<^verbatim>\<open>total_cmp\<close> as a \<open>linorder\<close> instance, and
  the lemmas that reduce each operation on finite values to rounding on the real
  numbers: what it returns in general, and that it is exact when the exact result is
  representable.
\<close>

section \<open>Values\<close>

datatype f64 = Fin real | NegZero | Inf bool | NaN bool

fun is_nan :: "f64 \<Rightarrow> bool" where
  "is_nan (NaN s) = True"
| "is_nan _ = False"

fun is_finite :: "f64 \<Rightarrow> bool" where
  "is_finite (Fin x) = True"
| "is_finite NegZero = True"
| "is_finite _ = False"

fun is_zero :: "f64 \<Rightarrow> bool" where
  "is_zero (Fin x) = (x = 0)"
| "is_zero NegZero = True"
| "is_zero _ = False"

fun sign_bit :: "f64 \<Rightarrow> bool" where
  "sign_bit (Fin x) = (x < 0)"
| "sign_bit NegZero = True"
| "sign_bit (Inf s) = s"
| "sign_bit (NaN s) = s"

text \<open>The real number a finite value stands for; \<open>0\<close> on infinities and NaNs.\<close>

fun val :: "f64 \<Rightarrow> real" where
  "val (Fin x) = x"
| "val _ = 0"

definition zero_of :: "bool \<Rightarrow> f64" where
  "zero_of s = (if s then NegZero else Fin 0)"

text \<open>
  Rounding into the format. \<open>z\<close> is the sign of the zero that stands for an exact result
  \<open>0\<close>, which depends on the operation.
\<close>

definition round64 :: "bool \<Rightarrow> real \<Rightarrow> f64" where
  "round64 z x =
     (let y = rnd x
      in if limit \<le> \<bar>y\<bar> then Inf (x < 0)
         else if y = 0 then zero_of (if x = 0 then z else x < 0)
         else Fin y)"

fun wf64 :: "f64 \<Rightarrow> bool" where
  "wf64 (Fin x) = rep64 x"
| "wf64 _ = True"

definition of_u64 :: "u64 \<Rightarrow> f64" where
  "of_u64 n = round64 False (real (unat n))"

section \<open>Arithmetic\<close>

fun fneg :: "f64 \<Rightarrow> f64" where
  "fneg (Fin x) = (if x = 0 then NegZero else Fin (- x))"
| "fneg NegZero = Fin 0"
| "fneg (Inf s) = Inf (\<not> s)"
| "fneg (NaN s) = NaN (\<not> s)"

fun fabs :: "f64 \<Rightarrow> f64" where
  "fabs (Fin x) = Fin \<bar>x\<bar>"
| "fabs NegZero = Fin 0"
| "fabs (Inf s) = Inf False"
| "fabs (NaN s) = NaN False"

fun fadd :: "f64 \<Rightarrow> f64 \<Rightarrow> f64" where
  "fadd (NaN s) b = NaN s"
| "fadd a (NaN s) = NaN s"
| "fadd (Inf s) (Inf t) = (if s = t then Inf s else NaN False)"
| "fadd (Inf s) b = Inf s"
| "fadd a (Inf t) = Inf t"
| "fadd a b = round64 (sign_bit a \<and> sign_bit b) (val a + val b)"

definition fsub :: "f64 \<Rightarrow> f64 \<Rightarrow> f64" where
  "fsub a b = fadd a (fneg b)"

fun fmul :: "f64 \<Rightarrow> f64 \<Rightarrow> f64" where
  "fmul (NaN s) b = NaN s"
| "fmul a (NaN s) = NaN s"
| "fmul (Inf s) b = (if is_zero b then NaN False else Inf (s \<noteq> sign_bit b))"
| "fmul a (Inf t) = (if is_zero a then NaN False else Inf (sign_bit a \<noteq> t))"
| "fmul a b = round64 (sign_bit a \<noteq> sign_bit b) (val a * val b)"

fun fdiv :: "f64 \<Rightarrow> f64 \<Rightarrow> f64" where
  "fdiv (NaN s) b = NaN s"
| "fdiv a (NaN s) = NaN s"
| "fdiv (Inf s) (Inf t) = NaN False"
| "fdiv (Inf s) b = Inf (s \<noteq> sign_bit b)"
| "fdiv a (Inf t) = zero_of (sign_bit a \<noteq> t)"
| "fdiv a b =
     (if is_zero b then (if is_zero a then NaN False else Inf (sign_bit a \<noteq> sign_bit b))
      else round64 (sign_bit a \<noteq> sign_bit b) (val a / val b))"

text \<open>
  \<^verbatim>\<open>powi\<close> with a non-negative exponent, by repeated multiplication, each product
  rounded.
\<close>

primrec fpowi :: "f64 \<Rightarrow> nat \<Rightarrow> f64" where
  "fpowi x 0 = Fin 1"
| "fpowi x (Suc n) = fmul x (fpowi x n)"

lemma fpowi_2: "fpowi x 2 = fmul x (fmul x (Fin 1))"
  by (simp add: numeral_2_eq_2)

section \<open>Comparisons\<close>

text \<open>
  The operators \<^verbatim>\<open><\<close> and \<^verbatim>\<open><=\<close> are false when an operand is NaN and do not tell the
  zeros apart. \<open>cls\<close> places the infinities around the finite values.
\<close>

fun cls :: "f64 \<Rightarrow> int" where
  "cls (Inf s) = (if s then - 1 else 1)"
| "cls _ = 0"

definition flt :: "f64 \<Rightarrow> f64 \<Rightarrow> bool" where
  "flt a b \<longleftrightarrow> \<not> is_nan a \<and> \<not> is_nan b \<and> (cls a < cls b \<or> cls a = cls b \<and> val a < val b)"

definition fle :: "f64 \<Rightarrow> f64 \<Rightarrow> bool" where
  "fle a b \<longleftrightarrow> \<not> is_nan a \<and> \<not> is_nan b \<and> (cls a < cls b \<or> cls a = cls b \<and> val a \<le> val b)"

text \<open>
  \<^verbatim>\<open>f64::min\<close> and \<^verbatim>\<open>f64::max\<close> return the other operand when one is NaN. For operands
  that compare equal the library may return either; the model returns the receiver.
\<close>

definition fmin :: "f64 \<Rightarrow> f64 \<Rightarrow> f64" where
  "fmin a b = (if is_nan a then b else if is_nan b then a else if flt b a then b else a)"

definition fmax :: "f64 \<Rightarrow> f64 \<Rightarrow> f64" where
  "fmax a b = (if is_nan a then b else if is_nan b then a else if flt a b then b else a)"

text \<open>
  \<^verbatim>\<open>total_cmp\<close> orders all values: negative NaN, negative infinity, the negative numbers,
  negative zero, positive zero, the positive numbers, positive infinity, positive NaN.
  \<open>tkey\<close> maps a value to its place in that order.
\<close>

fun tkey :: "f64 \<Rightarrow> int \<times> real" where
  "tkey (NaN s) = (if s then (- 3, 0) else (3, 0))"
| "tkey (Inf s) = (if s then (- 2, 0) else (2, 0))"
| "tkey NegZero = (0, 0)"
| "tkey (Fin x) = (if x < 0 then (- 1, x) else (1, x))"

definition total_cmp :: "f64 \<Rightarrow> f64 \<Rightarrow> ordering" where
  "total_cmp a b =
     (if tkey a < tkey b then Less else if tkey a = tkey b then Equal else Greater)"

section \<open>Rounding into the format\<close>

lemma zero_of_finite [simp]: "is_finite (zero_of s)" "val (zero_of s) = 0" "wf64 (zero_of s)"
  by (simp_all add: zero_of_def)

lemma zero_of_simps [simp]:
  "\<not> is_nan (zero_of s)" "is_zero (zero_of s)" "sign_bit (zero_of s) = s" "cls (zero_of s) = 0"
  by (simp_all add: zero_of_def)

lemma round64_0 [simp]: "round64 z 0 = zero_of z"
  by (simp add: round64_def)

lemma round64_wf [simp]: "wf64 (round64 z x)"
  by (simp add: round64_def Let_def rep64_rnd)

lemma round64_not_nan [simp]: "\<not> is_nan (round64 z x)"
  by (simp add: round64_def Let_def)

lemma round64_finite_iff: "is_finite (round64 z x) \<longleftrightarrow> \<bar>rnd x\<bar> < limit"
  by (simp add: round64_def Let_def)

lemma round64_val: "\<bar>rnd x\<bar> < limit \<Longrightarrow> val (round64 z x) = rnd x"
  by (simp add: round64_def Let_def)

lemma round64_overflow: "limit \<le> \<bar>rnd x\<bar> \<Longrightarrow> round64 z x = Inf (x < 0)"
  by (simp add: round64_def)

lemma round64_rep [simp]: "rep64 x \<Longrightarrow> round64 z x = (if x = 0 then zero_of z else Fin x)"
  by (simp add: round64_def rep64_def)

lemma round64_eval: "rnd x = y \<Longrightarrow> rep64 y \<Longrightarrow> y \<noteq> 0 \<Longrightarrow> round64 z x = Fin y"
  by (simp add: round64_def rep64_def)

lemma round64_overflow_pos: "limit \<le> x \<Longrightarrow> round64 z x = Inf False"
proof -
  assume x: "limit \<le> x"
  then have "rnd limit \<le> rnd x"
    by (rule rnd_mono)
  then have "limit \<le> rnd x"
    by simp
  moreover from x have "0 < x"
    by (rule less_le_trans [rotated]) simp
  ultimately show ?thesis
    by (simp add: round64_overflow)
qed

lemma round64_exact [simp]:
  "rep64 x \<Longrightarrow> is_finite (round64 z x)" "rep64 x \<Longrightarrow> val (round64 z x) = x"
  by simp_all

lemma finite_val_eq: "is_finite a \<Longrightarrow> val a = x \<Longrightarrow> x \<noteq> 0 \<Longrightarrow> a = Fin x"
  by (cases a) auto

lemma round64_sign: "sign_bit (round64 z x) = (if x = 0 then z else x < 0)"
proof -
  consider "x = 0" | "x < 0" | "0 < x"
    by linarith
  then show ?thesis
  proof cases
    case 1
    then show ?thesis
      by simp
  next
    case 2
    with rnd_nonpos [of x] show ?thesis
      by (auto simp: round64_def Let_def)
  next
    case 3
    with rnd_nonneg [of x] show ?thesis
      by (auto simp: round64_def Let_def)
  qed
qed

lemma wf64_val: "wf64 a \<Longrightarrow> rep64 (val a)"
  by (cases a) simp_all

lemma wf64_Fin_val: "is_finite a \<Longrightarrow> wf64 a \<Longrightarrow> wf64 (Fin (val a))"
  by (cases a) simp_all

section \<open>Every operation returns a number of the format\<close>

lemma of_u64_wf [simp]: "wf64 (of_u64 n)"
  by (simp add: of_u64_def)

lemma fneg_wf [simp]: "wf64 a \<Longrightarrow> wf64 (fneg a)"
  by (cases a) simp_all

lemma fabs_wf [simp]: "wf64 a \<Longrightarrow> wf64 (fabs a)"
  by (cases a) simp_all

lemma fadd_wf [simp]: "wf64 (fadd a b)"
  by (cases a; cases b) simp_all

lemma fsub_wf [simp]: "wf64 (fsub a b)"
  by (simp add: fsub_def)

lemma fmul_wf [simp]: "wf64 (fmul a b)"
  by (cases a; cases b) simp_all

lemma fdiv_wf [simp]: "wf64 (fdiv a b)"
  by (cases a; cases b) simp_all

lemma fpowi_wf [simp]: "wf64 (fpowi a n)"
  by (cases n) simp_all

lemma fmin_wf [simp]: "wf64 a \<Longrightarrow> wf64 b \<Longrightarrow> wf64 (fmin a b)"
  by (simp add: fmin_def)

lemma fmax_wf [simp]: "wf64 a \<Longrightarrow> wf64 b \<Longrightarrow> wf64 (fmax a b)"
  by (simp add: fmax_def)

section \<open>Finite values: the operations round the exact result\<close>

lemma is_finite_not_nan [simp]: "is_finite a \<Longrightarrow> \<not> is_nan a"
  by (cases a) simp_all

lemma is_finite_cls [simp]: "is_finite a \<Longrightarrow> cls a = 0"
  by (cases a) simp_all

lemma is_zero_iff: "is_zero a \<longleftrightarrow> is_finite a \<and> val a = 0"
  by (cases a) simp_all

lemma fneg_finite [simp]:
  "is_finite a \<Longrightarrow> is_finite (fneg a)" "is_finite a \<Longrightarrow> val (fneg a) = - val a"
  by (cases a; simp)+

lemma fneg_sign: "\<not> is_nan a \<Longrightarrow> sign_bit (fneg a) = (\<not> sign_bit a)"
  by (cases a) auto

lemma fabs_finite [simp]:
  "is_finite a \<Longrightarrow> is_finite (fabs a)" "is_finite a \<Longrightarrow> val (fabs a) = \<bar>val a\<bar>"
  by (cases a; simp)+

lemma fadd_round:
  "is_finite a \<Longrightarrow> is_finite b
     \<Longrightarrow> fadd a b = round64 (sign_bit a \<and> sign_bit b) (val a + val b)"
  by (cases a; cases b) simp_all

lemma fsub_round:
  "is_finite a \<Longrightarrow> is_finite b
     \<Longrightarrow> fsub a b = round64 (sign_bit a \<and> \<not> sign_bit b) (val a - val b)"
  by (simp add: fsub_def fadd_round fneg_sign)

lemma fmul_round:
  "is_finite a \<Longrightarrow> is_finite b
     \<Longrightarrow> fmul a b = round64 (sign_bit a \<noteq> sign_bit b) (val a * val b)"
  by (cases a; cases b) simp_all

lemma fdiv_round:
  "is_finite a \<Longrightarrow> is_finite b \<Longrightarrow> val b \<noteq> 0
     \<Longrightarrow> fdiv a b = round64 (sign_bit a \<noteq> sign_bit b) (val a / val b)"
  by (cases a; cases b) simp_all

lemmas op_round = fadd_round fsub_round fmul_round fdiv_round

text \<open>When nothing overflows the value of the result is the rounded exact result.\<close>

lemma fadd_finite:
  assumes "is_finite a" "is_finite b" "\<bar>rnd (val a + val b)\<bar> < limit"
  shows "is_finite (fadd a b)" "val (fadd a b) = rnd (val a + val b)"
  using assms by (simp_all add: fadd_round round64_finite_iff round64_val)

lemma fsub_finite:
  assumes "is_finite a" "is_finite b" "\<bar>rnd (val a - val b)\<bar> < limit"
  shows "is_finite (fsub a b)" "val (fsub a b) = rnd (val a - val b)"
  using assms by (simp_all add: fsub_round round64_finite_iff round64_val)

lemma fmul_finite:
  assumes "is_finite a" "is_finite b" "\<bar>rnd (val a * val b)\<bar> < limit"
  shows "is_finite (fmul a b)" "val (fmul a b) = rnd (val a * val b)"
  using assms by (simp_all add: fmul_round round64_finite_iff round64_val)

lemma fdiv_finite:
  assumes "is_finite a" "is_finite b" "val b \<noteq> 0" "\<bar>rnd (val a / val b)\<bar> < limit"
  shows "is_finite (fdiv a b)" "val (fdiv a b) = rnd (val a / val b)"
  using assms by (simp_all add: fdiv_round round64_finite_iff round64_val)

text \<open>When the exact result is representable the operation is exact.\<close>

lemma of_u64_exact [simp]:
  assumes "unat n \<le> 2 ^ 53"
  shows "is_finite (of_u64 n)" "val (of_u64 n) = real (unat n)"
  using rep64_of_nat [OF assms] by (simp_all add: of_u64_def del: round64_rep)

lemma fadd_exact [simp]:
  assumes "is_finite a" "is_finite b" "rep64 (val a + val b)"
  shows "is_finite (fadd a b)" "val (fadd a b) = val a + val b"
  using assms by (simp_all add: fadd_round del: round64_rep)

lemma fsub_exact [simp]:
  assumes "is_finite a" "is_finite b" "rep64 (val a - val b)"
  shows "is_finite (fsub a b)" "val (fsub a b) = val a - val b"
  using assms by (simp_all add: fsub_round del: round64_rep)

lemma fmul_exact [simp]:
  assumes "is_finite a" "is_finite b" "rep64 (val a * val b)"
  shows "is_finite (fmul a b)" "val (fmul a b) = val a * val b"
  using assms by (simp_all add: fmul_round del: round64_rep)

lemma fdiv_exact [simp]:
  assumes "is_finite a" "is_finite b" "val b \<noteq> 0" "rep64 (val a / val b)"
  shows "is_finite (fdiv a b)" "val (fdiv a b) = val a / val b"
  using assms by (simp_all add: fdiv_round del: round64_rep)

lemma fpowi_2_round:
  assumes "is_finite a" "wf64 a"
  shows "fpowi a 2 = round64 False (val a * val a)"
proof -
  from assms have "fmul a (Fin 1) = a \<or> (a = NegZero \<and> fmul a (Fin 1) = NegZero)"
    by (cases a) (auto simp: zero_of_def)
  then have one: "fmul a (Fin 1) = a"
    by auto
  have "sign_bit a = sign_bit a \<longleftrightarrow> True"
    by simp
  with assms(1) show ?thesis
    by (simp add: fpowi_2 one fmul_round)
qed

lemma flt_finite [simp]: "is_finite a \<Longrightarrow> is_finite b \<Longrightarrow> flt a b \<longleftrightarrow> val a < val b"
  by (simp add: flt_def)

lemma fle_finite [simp]: "is_finite a \<Longrightarrow> is_finite b \<Longrightarrow> fle a b \<longleftrightarrow> val a \<le> val b"
  by (simp add: fle_def)

lemma fmin_finite [simp]:
  assumes "is_finite a" "is_finite b"
  shows "is_finite (fmin a b)" "val (fmin a b) = min (val a) (val b)"
  using assms by (auto simp: fmin_def)

lemma fmax_finite [simp]:
  assumes "is_finite a" "is_finite b"
  shows "is_finite (fmax a b)" "val (fmax a b) = max (val a) (val b)"
  using assms by (auto simp: fmax_def)

section \<open>Special values\<close>

lemma fdiv_zero_zero: "is_zero a \<Longrightarrow> is_zero b \<Longrightarrow> fdiv a b = NaN False"
  by (cases a; cases b; simp)

lemma fadd_nan [simp]: "is_nan a \<Longrightarrow> is_nan (fadd a b)" "is_nan b \<Longrightarrow> is_nan (fadd a b)"
  by (cases a; cases b; simp)+

lemma fmin_nan_left [simp]: "fmin (NaN s) b = b"
  by (simp add: fmin_def)

lemma fmin_nan_right [simp]: "\<not> is_nan a \<Longrightarrow> fmin a (NaN s) = a"
  by (simp add: fmin_def)

lemma fmax_nan_left [simp]: "fmax (NaN s) b = b"
  by (simp add: fmax_def)

lemma fmax_nan_right [simp]: "\<not> is_nan a \<Longrightarrow> fmax a (NaN s) = a"
  by (simp add: fmax_def)

lemma fmin_idem [simp]: "fmin a a = a"
  by (simp add: fmin_def flt_def)

lemma fmax_idem [simp]: "fmax a a = a"
  by (simp add: fmax_def flt_def)

lemma fle_nan [simp]: "\<not> fle (NaN s) b" "\<not> fle a (NaN s)"
  by (simp_all add: fle_def)

lemma fle_fabs_fsub_finite:
  "fle (fabs (fsub l r)) (Fin c) \<Longrightarrow> is_finite l \<and> is_finite r"
  by (cases l; cases r) (simp_all add: fsub_def fle_def split: if_splits)

text \<open>
  The width test and the midpoint of \<^verbatim>\<open>find_median\<close> on finite values. A difference that
  overflows fails the test, and a sum that overflows gives an infinite midpoint.
\<close>

lemma narrow_finite:
  assumes "is_finite l" "is_finite r" "c < limit"
  shows "fle (fabs (fsub l r)) (Fin c) \<longleftrightarrow> \<bar>rnd (val l - val r)\<bar> \<le> c"
proof (cases "\<bar>rnd (val l - val r)\<bar> < limit")
  case True
  with assms(1,2) show ?thesis
    by (simp add: fsub_finite)
next
  case False
  with assms(1,2) have "fsub l r = Inf (val l - val r < 0)"
    by (simp add: fsub_round round64_overflow)
  with False assms(3) show ?thesis
    by (simp add: fle_def)
qed

lemma rnd_half_in_range:
  assumes "\<bar>rnd x\<bar> < limit"
  shows "\<bar>rnd (rnd x / 2)\<bar> < limit"
proof -
  have "rnd \<bar>rnd x / 2\<bar> \<le> rnd \<bar>rnd x\<bar>"
    by (rule rnd_mono) simp
  then have "\<bar>rnd (rnd x / 2)\<bar> \<le> \<bar>rnd x\<bar>"
    by (simp only: rnd_abs [symmetric] rnd_idem)
  with assms show ?thesis
    by simp
qed

lemma midpoint_finite_iff:
  "is_finite (fdiv (fadd r l) (Fin 2))
     \<longleftrightarrow> is_finite l \<and> is_finite r \<and> \<bar>rnd (val r + val l)\<bar> < limit"
proof (cases "is_finite l \<and> is_finite r")
  case True
  show ?thesis
  proof (cases "\<bar>rnd (val r + val l)\<bar> < limit")
    case inside: True
    with True have "is_finite (fadd r l)" "val (fadd r l) = rnd (val r + val l)"
      by (simp_all add: fadd_finite)
    with True inside show ?thesis
      by (simp add: fdiv_round round64_finite_iff rnd_half_in_range)
  next
    case False
    with True have "fadd r l = Inf (val r + val l < 0)"
      by (simp add: fadd_round round64_overflow)
    with False show ?thesis
      by simp
  qed
next
  case False
  then show ?thesis
    by (cases l; cases r) (simp_all split: if_splits)
qed

lemma midpoint_val:
  assumes "is_finite l" "is_finite r" "\<bar>rnd (val r + val l)\<bar> < limit"
  shows "val (fdiv (fadd r l) (Fin 2)) = rnd (rnd (val r + val l) / 2)"
proof -
  from assms have "is_finite (fadd r l)" "val (fadd r l) = rnd (val r + val l)"
    by (simp_all add: fadd_finite)
  with assms(3) show ?thesis
    by (simp add: fdiv_finite rnd_half_in_range)
qed

lemma fmax_pos_inf [simp]: "fmax x (Inf False) = Inf False" "fmax (Inf False) x = Inf False"
  by (cases x; simp add: fmax_def flt_def)+

lemma fmin_neg_inf [simp]: "fmin x (Inf True) = Inf True" "fmin (Inf True) x = Inf True"
  by (cases x; simp add: fmin_def flt_def)+

lemma fmin_not_nan: "\<not> is_nan a \<or> \<not> is_nan b \<Longrightarrow> \<not> is_nan (fmin a b)"
  by (auto simp: fmin_def)

lemma fmax_not_nan: "\<not> is_nan a \<or> \<not> is_nan b \<Longrightarrow> \<not> is_nan (fmax a b)"
  by (auto simp: fmax_def)

lemma fmin_nan_receiver: "is_nan a \<Longrightarrow> fmin a b = b"
  by (simp add: fmin_def)

lemma fmax_nan_receiver: "is_nan a \<Longrightarrow> fmax a b = b"
  by (simp add: fmax_def)

section \<open>The total order\<close>

lemma tkey_inject: "tkey a = tkey b \<longleftrightarrow> a = b"
  by (cases a; cases b) (auto split: if_splits)

instantiation f64 :: linorder
begin

definition less_eq_f64 :: "f64 \<Rightarrow> f64 \<Rightarrow> bool" where
  "less_eq_f64 a b \<longleftrightarrow> tkey a \<le> tkey b"

definition less_f64 :: "f64 \<Rightarrow> f64 \<Rightarrow> bool" where
  "less_f64 a b \<longleftrightarrow> tkey a < tkey b"

instance
proof
  fix x y z :: f64
  show "x < y \<longleftrightarrow> x \<le> y \<and> \<not> y \<le> x"
    unfolding less_eq_f64_def less_f64_def by (rule less_le_not_le)
  show "x \<le> x"
    unfolding less_eq_f64_def by simp
  show "x \<le> y \<Longrightarrow> y \<le> z \<Longrightarrow> x \<le> z"
    unfolding less_eq_f64_def by (rule order_trans)
  show "x \<le> y \<Longrightarrow> y \<le> x \<Longrightarrow> x = y"
    unfolding less_eq_f64_def using tkey_inject [of x y] by (metis antisym)
  show "x \<le> y \<or> y \<le> x"
    unfolding less_eq_f64_def by (rule linear)
qed

end

lemma total_cmp_Less [simp]: "total_cmp a b = Less \<longleftrightarrow> a < b"
  by (simp add: total_cmp_def less_f64_def)

lemma total_cmp_cases:
  "total_cmp a b = (if a < b then Less else if a = b then Equal else Greater)"
  by (simp add: total_cmp_def less_f64_def tkey_inject)

lemma total_cmp_Equal [simp]: "total_cmp a b = Equal \<longleftrightarrow> a = b"
  by (simp add: total_cmp_cases)

lemma total_cmp_Greater [simp]: "total_cmp a b = Greater \<longleftrightarrow> b < a"
  by (auto simp: total_cmp_cases)

text \<open>On finite values the total order refines the order of the real numbers.\<close>

lemma less_eq_f64_val: "is_finite a \<Longrightarrow> is_finite b \<Longrightarrow> a \<le> b \<Longrightarrow> val a \<le> val b"
  by (cases a; cases b) (auto simp: less_eq_f64_def split: if_splits)

lemma less_f64_val: "is_finite a \<Longrightarrow> is_finite b \<Longrightarrow> a < b \<Longrightarrow> val a \<le> val b"
  by (simp add: less_eq_f64_val)

lemma val_less_f64: "is_finite a \<Longrightarrow> is_finite b \<Longrightarrow> val a < val b \<Longrightarrow> a < b"
  by (cases a; cases b) (auto simp: less_f64_def split: if_splits)

lemma neg_zero_less_zero: "NegZero < Fin 0"
  by (simp add: less_f64_def)

lemma fle_imp_not_total_greater:
  "fle a b \<Longrightarrow> \<not> (is_zero a \<and> is_zero b) \<Longrightarrow> a \<le> b"
  by (cases a; cases b) (auto simp: fle_def less_eq_f64_def split: if_splits)

end
