(* ===== verification/Float_Parse.thy ===== *)
theory Float_Parse
  imports F64_Model
begin

text \<open>
  What line 14 of \<^verbatim>\<open>src/main.rs\<close> does to one token: \<^verbatim>\<open>String::from_utf8\<close> accepts
  well-formed UTF-8 only, and \<^verbatim>\<open>str::parse::<f64>\<close> accepts exactly the literals of the
  grammar in the documentation of \<^verbatim>\<open>f64::from_str\<close>:
  an optional sign, then \<^verbatim>\<open>inf\<close>, \<^verbatim>\<open>infinity\<close> or \<^verbatim>\<open>nan\<close> in any letter case, or a decimal
  number with at least one digit, an optional point and an optional exponent. Nothing
  is trimmed, so a token with a blank, a tab or a line break in it is rejected. The
  value of a decimal literal is the number it denotes rounded to the format, as the
  library does it: to the nearest double, to an infinity when it is too large and to a
  zero of its sign when it is too small.
\<close>

section \<open>UTF-8\<close>

definition in_range :: "u8 \<Rightarrow> u8 \<Rightarrow> u8 \<Rightarrow> bool" where
  "in_range lo hi b \<longleftrightarrow> lo \<le> b \<and> b \<le> hi"

fun utf8_valid :: "u8 list \<Rightarrow> bool" where
  "utf8_valid [] = True"
| "utf8_valid (b # bs) =
     (if b < 0x80 then utf8_valid bs
      else if in_range 0xC2 0xDF b then
        (case bs of
           b1 # r \<Rightarrow> in_range 0x80 0xBF b1 \<and> utf8_valid r
         | _ \<Rightarrow> False)
      else if in_range 0xE0 0xEF b then
        (case bs of
           b1 # b2 # r \<Rightarrow>
             in_range (if b = 0xE0 then 0xA0 else 0x80) (if b = 0xED then 0x9F else 0xBF) b1
             \<and> in_range 0x80 0xBF b2 \<and> utf8_valid r
         | _ \<Rightarrow> False)
      else if in_range 0xF0 0xF4 b then
        (case bs of
           b1 # b2 # b3 # r \<Rightarrow>
             in_range (if b = 0xF0 then 0x90 else 0x80) (if b = 0xF4 then 0x8F else 0xBF) b1
             \<and> in_range 0x80 0xBF b2 \<and> in_range 0x80 0xBF b3 \<and> utf8_valid r
         | _ \<Rightarrow> False)
      else False)"

definition from_utf8 :: "u8 list \<Rightarrow> u8 list result" where
  "from_utf8 data = (if utf8_valid data then Inr data else Inl Utf8Error)"

section \<open>Decimal literals\<close>

definition is_digit :: "u8 \<Rightarrow> bool" where
  "is_digit b \<longleftrightarrow> 0x30 \<le> b \<and> b \<le> 0x39"

definition digit_val :: "u8 \<Rightarrow> nat" where
  "digit_val b = unat (b - 0x30)"

definition digits_value :: "u8 list \<Rightarrow> nat" where
  "digits_value ds = foldl (\<lambda>acc b. 10 * acc + digit_val b) 0 ds"

definition to_lower :: "u8 \<Rightarrow> u8" where
  "to_lower b = (if 0x41 \<le> b \<and> b \<le> 0x5A then b + 0x20 else b)"

text \<open>
  The exponent part: nothing, or \<^verbatim>\<open>e\<close> or \<^verbatim>\<open>E\<close>, an optional sign and at least one digit,
  with nothing after the digits.
\<close>

definition parse_scientific :: "u8 list \<Rightarrow> int option" where
  "parse_scientific s =
     (case s of
        [] \<Rightarrow> None
      | c # t \<Rightarrow>
          let neg = (c = 0x2D);
              ds = (if c = 0x2D \<or> c = 0x2B then t else s)
          in if ds \<noteq> [] \<and> list_all is_digit ds
             then Some (if neg then - int (digits_value ds) else int (digits_value ds))
             else None)"

definition parse_exp :: "u8 list \<Rightarrow> int option" where
  "parse_exp s =
     (case s of
        [] \<Rightarrow> Some 0
      | c # t \<Rightarrow> if c = 0x65 \<or> c = 0x45 then parse_scientific t else None)"

text \<open>
  A number is its digits before and after the point read as one natural number
  together with a power of ten: \<open>(m, e)\<close> stands for \<open>m * 10 ^ e\<close>.
\<close>

definition parse_number :: "u8 list \<Rightarrow> (nat \<times> int) option" where
  "parse_number s =
     (let ip = takeWhile is_digit s;
          r1 = dropWhile is_digit s;
          fp = (case r1 of [] \<Rightarrow> [] | b # t \<Rightarrow> if b = 0x2E then takeWhile is_digit t else []);
          r2 = (case r1 of [] \<Rightarrow> [] | b # t \<Rightarrow> if b = 0x2E then dropWhile is_digit t else r1)
      in if ip = [] \<and> fp = [] then None
         else case parse_exp r2 of
                None \<Rightarrow> None
              | Some e \<Rightarrow> Some (digits_value (ip @ fp), e - int (length fp)))"

definition parse_inf_nan :: "u8 list \<Rightarrow> bool \<Rightarrow> f64 option" where
  "parse_inf_nan s negative =
     (let l = map to_lower s
      in if l = [0x6E, 0x61, 0x6E] then Some (NaN negative)
         else if l = [0x69, 0x6E, 0x66] \<or> l = [0x69, 0x6E, 0x66, 0x69, 0x6E, 0x69, 0x74, 0x79]
         then Some (Inf negative)
         else None)"

definition make_float :: "bool \<Rightarrow> nat \<Rightarrow> int \<Rightarrow> f64" where
  "make_float negative m e =
     (let a = (if 0 \<le> e then real m * 10 ^ nat e else real m / 10 ^ nat (- e))
      in round64 negative (if negative then - a else a))"

definition parse_f64 :: "u8 list \<Rightarrow> f64 result" where
  "parse_f64 s =
     (case s of
        [] \<Rightarrow> Inl ParseFloatError
      | c # t \<Rightarrow>
          let negative = (c = 0x2D);
              r = (if c = 0x2D \<or> c = 0x2B then t else s)
          in if r = [] then Inl ParseFloatError
             else case parse_number r of
                    Some (m, e) \<Rightarrow> Inr (make_float negative m e)
                  | None \<Rightarrow>
                      (case parse_inf_nan r negative of
                         Some v \<Rightarrow> Inr v
                       | None \<Rightarrow> Inl ParseFloatError))"

text \<open>One token of the file: the two conversions of line 14 in sequence.\<close>

definition parse_token :: "u8 list \<Rightarrow> f64 result" where
  "parse_token data = rbind (from_utf8 data) parse_f64"

text \<open>
  The bytes that occur in the literals of the grammar: digits, signs, the point, the
  exponent letter, and the letters of \<^verbatim>\<open>inf\<close>, \<^verbatim>\<open>infinity\<close> and \<^verbatim>\<open>nan\<close> in both cases.
\<close>

definition float_char :: "u8 \<Rightarrow> bool" where
  "float_char b \<longleftrightarrow>
     is_digit b \<or> b \<in> {0x2B, 0x2D, 0x2E, 0x45, 0x65}
     \<or> b \<in> {0x41, 0x46, 0x49, 0x4E, 0x54, 0x59, 0x61, 0x66, 0x69, 0x6E, 0x74, 0x79}"

lemmas parse_defs =
  parse_token_def from_utf8_def parse_f64_def parse_number_def parse_exp_def
  parse_scientific_def parse_inf_nan_def make_float_def digits_value_def digit_val_def
  is_digit_def to_lower_def in_range_def zero_of_def

section \<open>Rejected tokens\<close>

lemma parse_f64_empty [simp]: "parse_f64 [] = Inl ParseFloatError"
  by (simp add: parse_f64_def)

lemma parse_token_empty [simp]: "parse_token [] = Inl ParseFloatError"
  by (simp add: parse_token_def from_utf8_def)

lemma parse_token_not_utf8: "\<not> utf8_valid data \<Longrightarrow> parse_token data = Inl Utf8Error"
  by (simp add: parse_token_def from_utf8_def)

lemma parse_token_utf8: "utf8_valid data \<Longrightarrow> parse_token data = parse_f64 data"
  by (simp add: parse_token_def from_utf8_def)

lemma parse_f64_error: "parse_f64 s = Inl e \<Longrightarrow> e = ParseFloatError"
  unfolding parse_f64_def
  by (cases s) (simp_all add: Let_def split: if_splits option.splits prod.splits)

lemma parse_token_error:
  "parse_token data = Inl e \<Longrightarrow> e = Utf8Error \<or> e = ParseFloatError"
  by (cases "utf8_valid data")
    (auto simp: parse_token_utf8 parse_token_not_utf8 dest: parse_f64_error)

section \<open>Accepted tokens are numbers of the format\<close>

lemma make_float_wf [simp]: "wf64 (make_float negative m e)"
  by (simp add: make_float_def Let_def)

lemma parse_f64_wf: "parse_f64 s = Inr v \<Longrightarrow> wf64 v"
  unfolding parse_f64_def parse_inf_nan_def
  by (cases s) (auto simp: Let_def split: if_splits option.splits prod.splits)

lemma parse_token_wf: "parse_token data = Inr v \<Longrightarrow> wf64 v"
  by (cases "utf8_valid data") (auto simp: parse_token_utf8 parse_token_not_utf8 dest: parse_f64_wf)

section \<open>The bytes of an accepted token\<close>

lemma digits_float_char: "list_all is_digit ds \<Longrightarrow> list_all float_char ds"
  by (induction ds) (simp_all add: float_char_def)

lemma takeWhile_float_char [simp]: "list_all float_char (takeWhile is_digit s)"
  by (rule digits_float_char) (auto simp: list_all_iff dest: set_takeWhileD)

lemma parse_scientific_chars: "parse_scientific s = Some e \<Longrightarrow> list_all float_char s"
  unfolding parse_scientific_def
  by (cases s) (auto simp: Let_def float_char_def dest: digits_float_char split: if_splits)

lemma parse_exp_chars: "parse_exp s = Some e \<Longrightarrow> list_all float_char s"
  unfolding parse_exp_def
  by (cases s) (auto simp: float_char_def dest: parse_scientific_chars split: if_splits)

lemma after_digits_chars:
  assumes "list_all float_char (dropWhile is_digit s)"
  shows "list_all float_char s"
proof -
  have "list_all float_char (takeWhile is_digit s @ dropWhile is_digit s)"
    unfolding list_all_append using assms by simp
  then show ?thesis
    by (simp only: takeWhile_dropWhile_id)
qed

lemma parse_number_exp:
  "parse_number s = Some p \<Longrightarrow>
     \<exists>e. parse_exp (case dropWhile is_digit s of [] \<Rightarrow> []
       | b # t \<Rightarrow> if b = 0x2E then dropWhile is_digit t else dropWhile is_digit s) = Some e"
  by (simp add: parse_number_def Let_def split: if_splits option.splits)

lemma parse_number_chars:
  assumes "parse_number s = Some p"
  shows "list_all float_char s"
proof (rule after_digits_chars)
  let ?r1 = "dropWhile is_digit s"
  let ?r2 = "case ?r1 of [] \<Rightarrow> [] | b # t \<Rightarrow> if b = 0x2E then dropWhile is_digit t else ?r1"
  from parse_number_exp [OF assms] obtain e where "parse_exp ?r2 = Some e"
    by blast
  then have r2: "list_all float_char ?r2"
    by (rule parse_exp_chars)
  show "list_all float_char ?r1"
  proof (cases ?r1)
    case Nil
    show ?thesis
      unfolding Nil by simp
  next
    case (Cons b t)
    from r2 have r: "list_all float_char (if b = 0x2E then dropWhile is_digit t else b # t)"
      unfolding Cons by simp
    have "list_all float_char (b # t)"
    proof (cases "b = 0x2E")
      case True
      with r have "list_all float_char (dropWhile is_digit t)"
        by simp
      then have "list_all float_char t"
        by (rule after_digits_chars)
      with True show ?thesis
        by (simp add: float_char_def)
    next
      case False
      with r show ?thesis
        by simp
    qed
    then show ?thesis
      unfolding Cons .
  qed
qed

lemma to_lower_cases: "to_lower b = c \<Longrightarrow> b = c \<or> b = c - 0x20"
  by (auto simp: to_lower_def split: if_splits)

lemma to_lower_letter:
  "to_lower b \<in> {0x61, 0x66, 0x69, 0x6E, 0x74, 0x79} \<Longrightarrow> float_char b"
  by (auto simp: float_char_def dest!: to_lower_cases)

lemma map_to_lower_chars:
  "map to_lower s = l \<Longrightarrow> set l \<subseteq> {0x61, 0x66, 0x69, 0x6E, 0x74, 0x79} \<Longrightarrow> list_all float_char s"
  by (induction s arbitrary: l) (auto intro: to_lower_letter)

lemma parse_inf_nan_chars: "parse_inf_nan s negative = Some v \<Longrightarrow> list_all float_char s"
  unfolding parse_inf_nan_def Let_def
  by (auto split: if_splits intro!: to_lower_letter)

lemma parse_f64_chars:
  assumes "parse_f64 s = Inr v"
  shows "list_all float_char s"
proof (cases s)
  case Nil
  with assms show ?thesis by simp
next
  case (Cons c t)
  let ?r = "if c = 0x2D \<or> c = 0x2B then t else s"
  from assms Cons have "(\<exists>p. parse_number ?r = Some p) \<or> (\<exists>w. parse_inf_nan ?r (c = 0x2D) = Some w)"
    by (auto simp: parse_f64_def Let_def split: if_splits option.splits)
  then have "list_all float_char ?r"
    by (auto dest: parse_number_chars parse_inf_nan_chars)
  with Cons show ?thesis
    by (auto simp: float_char_def split: if_splits)
qed

lemma float_char_ascii:
  assumes "float_char b"
  shows "b < 0x80 \<and> b \<notin> {0x09, 0x0A, 0x0D, 0x20}"
proof (cases "is_digit b")
  case True
  then have d: "0x30 \<le> b" "b \<le> 0x39"
    by (simp_all add: is_digit_def)
  from d(2) have "b < 0x80"
    by (rule le_less_trans) simp
  with d(1) show ?thesis
    by auto
next
  case False
  with assms show ?thesis
    by (auto simp: float_char_def)
qed

section \<open>Properties of the conversion\<close>

text \<open>
  \<^bold>\<open>C23\<close> (safety). A token is converted only if each of its bytes is a character of the
  grammar of float literals. Such a token is ASCII and holds no blank, tab, line feed or
  carriage return: white space other than the single blanks between tokens makes the
  scan fail.
\<close>

theorem accepted_token_chars:
  assumes "parse_token data = Inr v"
  shows "list_all (\<lambda>b. float_char b \<and> b < 0x80 \<and> b \<notin> {0x09, 0x0A, 0x0D, 0x20}) data"
proof -
  from assms have "parse_f64 data = Inr v"
    by (cases "utf8_valid data") (simp_all add: parse_token_utf8 parse_token_not_utf8)
  then have "list_all float_char data"
    by (rule parse_f64_chars)
  then show ?thesis
    unfolding list_all_iff using float_char_ascii by blast
qed

theorem accepted_token_chars_witness:
  "parse_token [0x2D, 0x31, 0x2E, 0x35] = Inr (Fin (- (3 / 2)))
   \<and> list_all (\<lambda>b. float_char b \<and> b < 0x80 \<and> b \<notin> {0x09, 0x0A, 0x0D, 0x20})
         [0x2D, 0x31, 0x2E, 0x35]"
proof -
  have p: "parse_token [0x2D, 0x31, 0x2E, 0x35] = Inr (Fin (- (3 / 2)))"
    by (simp add: parse_defs rep64_simps)
  from accepted_token_chars [OF p] p show ?thesis
    by simp
qed

end
