(* ===== verification/Scan_Engine.thy ===== *)
theory Scan_Engine
  imports Float_Parse
begin

text \<open>
  The scan engine, \<^verbatim>\<open>for_file\<close> of \<^verbatim>\<open>src/main.rs\<close>: open the file, split its bytes at
  the blank, convert every piece to a number and hand it to the caller's closure, in
  file order, stopping at the first failure.

  The file system is a parameter: a map from file names to files, where a file is its
  bytes and, possibly, the offset at which reading it fails. The closure, which in the
  source updates variables it has captured, is a function from a value and the
  captured state to the new state; a successful scan returns the final state.

  \<open>read_values\<close> is the specification of a scan: the list of all values of the file, or
  the first error. \<open>for_file_Inr\<close> and \<open>for_file_Inl\<close> show that a scan is a fold of the closure over
  that list, so that each statistic can be studied as a function of a list.
\<close>

section \<open>Files\<close>

record data_file =
  content :: "u8 list"
  fault :: "nat option"

type_synonym filesystem = "string \<Rightarrow> data_file option"

definition readable :: "u8 list \<Rightarrow> data_file" where
  "readable bs = \<lparr>content = bs, fault = None\<rparr>"

section \<open>Splitting at a delimiter\<close>

text \<open>
  \<^verbatim>\<open>BufRead::split\<close> reads up to and including the next delimiter. Nothing read ends
  the iteration; otherwise a trailing delimiter is removed and the piece is yielded.
  A file that ends with the delimiter therefore has no empty last piece, while two
  delimiters in a row give an empty piece between them.
\<close>

fun read_until :: "u8 \<Rightarrow> u8 list \<Rightarrow> u8 list \<times> u8 list" where
  "read_until d [] = ([], [])"
| "read_until d (b # bs) =
     (if b = d then ([b], bs) else (case read_until d bs of (buf, rest) \<Rightarrow> (b # buf, rest)))"

lemma read_until_append: "read_until d bs = (buf, rest) \<Longrightarrow> buf @ rest = bs"
  by (induction bs arbitrary: buf rest) (auto split: if_splits prod.splits)

lemma read_until_Nil_iff: "read_until d bs = ([], rest) \<longleftrightarrow> bs = [] \<and> rest = []"
  by (cases bs) (auto split: prod.splits)

lemma read_until_shorter:
  "read_until d bs = (buf, rest) \<Longrightarrow> buf \<noteq> [] \<Longrightarrow> length rest < length bs"
  by (drule read_until_append) auto

function split :: "u8 \<Rightarrow> u8 list \<Rightarrow> u8 list list" where
  "split d bs =
     (case read_until d bs of
        (buf, rest) \<Rightarrow>
          if buf = [] then []
          else (if last buf = d then butlast buf else buf) # split d rest)"
  by pat_completeness auto
termination
  by (relation "measure (\<lambda>(d, bs). length bs)") (auto dest: read_until_shorter [OF sym])

declare split.simps [simp del]

text \<open>The same pieces by recursion on the bytes.\<close>

fun tokens :: "u8 \<Rightarrow> u8 list \<Rightarrow> u8 list list" where
  "tokens d [] = []"
| "tokens d (b # bs) =
     (if b = d then [] # tokens d bs
      else (case tokens d bs of [] \<Rightarrow> [[b]] | t # ts \<Rightarrow> (b # t) # ts))"

text \<open>
  When reading fails at offset \<open>n\<close>, the pieces that end with a delimiter inside the
  first \<open>n\<close> bytes are yielded and then the error.
\<close>

definition complete_prefix :: "u8 \<Rightarrow> u8 list \<Rightarrow> u8 list" where
  "complete_prefix d bs = rev (dropWhile (\<lambda>b. b \<noteq> d) (rev bs))"

definition file_items :: "data_file \<Rightarrow> u8 list result list" where
  "file_items f =
     (case fault f of
        None \<Rightarrow> map Inr (split 0x20 (content f))
      | Some n \<Rightarrow> map Inr (split 0x20 (complete_prefix 0x20 (take n (content f)))) @ [Inl IoError])"

section \<open>The scan\<close>

text \<open>
  The loop of \<^verbatim>\<open>for_file\<close>. Each of the three \<^verbatim>\<open>?\<close> of its body is one \<open>rbind\<close>: the read
  of the piece, its conversion to a string, its conversion to a number.
\<close>

fun scan_items :: "(f64 \<Rightarrow> 's \<Rightarrow> 's) \<Rightarrow> u8 list result list \<Rightarrow> 's \<Rightarrow> 's result" where
  "scan_items action [] s = Inr s"
| "scan_items action (item # items) s =
     rbind item (\<lambda>data.
     rbind (from_utf8 data) (\<lambda>str.
     rbind (parse_f64 str) (\<lambda>x.
       scan_items action items (action x s))))"

definition for_file :: "filesystem \<Rightarrow> string \<Rightarrow> (f64 \<Rightarrow> 's \<Rightarrow> 's) \<Rightarrow> 's \<Rightarrow> 's result" where
  "for_file fs filename action s =
     (case fs filename of
        None \<Rightarrow> Inl IoError
      | Some f \<Rightarrow> scan_items action (file_items f) s)"

section \<open>Specification: the values of a file\<close>

fun parse_items :: "u8 list result list \<Rightarrow> f64 list result" where
  "parse_items [] = Inr []"
| "parse_items (item # items) =
     rbind (rbind item parse_token) (\<lambda>x. rbind (parse_items items) (\<lambda>xs. Inr (x # xs)))"

definition read_values :: "filesystem \<Rightarrow> string \<Rightarrow> f64 list result" where
  "read_values fs filename =
     (case fs filename of None \<Rightarrow> Inl IoError | Some f \<Rightarrow> parse_items (file_items f))"

lemmas scan_unfold [scan_defs] = for_file_def read_values_def file_items_def readable_def

section \<open>Splitting: the two definitions agree\<close>

lemma split_Nil [simp]: "split d [] = []"
  by (simp add: split.simps)

lemma read_until_Cons_neq:
  "b \<noteq> d \<Longrightarrow> read_until d (b # bs) = (b # fst (read_until d bs), snd (read_until d bs))"
  by (simp split: prod.splits)

lemma split_Cons_eq [simp]: "split d (d # bs) = [] # split d bs"
  by (simp add: split.simps [of d "d # bs"])

lemma split_Cons_neq:
  assumes "b \<noteq> d"
  shows "split d (b # bs) = (case split d bs of [] \<Rightarrow> [[b]] | t # ts \<Rightarrow> (b # t) # ts)"
proof (cases "read_until d bs")
  case (Pair buf rest)
  show ?thesis
  proof (cases "buf = []")
    case True
    with Pair have "bs = []" "rest = []"
      by (simp_all add: read_until_Nil_iff)
    with assms show ?thesis
      by (simp add: split.simps [of d "[b]"])
  next
    case False
    with Pair assms show ?thesis
      by (simp add: split.simps [of d "b # bs"] split.simps [of d bs])
  qed
qed

lemma split_eq_tokens: "split d bs = tokens d bs"
  by (induction bs) (simp_all add: split_Cons_neq)

section \<open>A scan is a fold over the values\<close>

lemma scan_items_Cons:
  "scan_items action (item # items) s =
     rbind (rbind item parse_token) (\<lambda>x. scan_items action items (action x s))"
  by (simp add: parse_token_def rbind_assoc)

lemma scan_items_parse_items:
  "scan_items action items s = rbind (parse_items items) (\<lambda>xs. Inr (fold action xs s))"
proof (induction items arbitrary: s)
  case Nil
  show ?case by simp
next
  case (Cons item items)
  show ?case
    by (cases "rbind item parse_token"; cases "parse_items items")
      (simp_all add: scan_items_Cons Cons.IH del: scan_items.simps)
qed

lemma for_file_Inr:
  "read_values fs filename = Inr xs \<Longrightarrow> for_file fs filename action s = Inr (fold action xs s)"
  by (auto simp: read_values_def for_file_def scan_items_parse_items split: option.splits)

lemma for_file_Inl:
  "read_values fs filename = Inl e \<Longrightarrow> for_file fs filename action s = Inl e"
  by (auto simp: read_values_def for_file_def scan_items_parse_items split: option.splits)

lemma for_file_missing: "fs filename = None \<Longrightarrow> for_file fs filename action s = Inl IoError"
  by (simp add: for_file_def)

text \<open>Every value of a file is a number of the format, an infinity or a NaN.\<close>

lemma parse_items_wf: "parse_items items = Inr xs \<Longrightarrow> list_all wf64 xs"
proof (induction items arbitrary: xs)
  case Nil
  then show ?case by auto
next
  case (Cons item items)
  from Cons.prems obtain data x xs' where
    "item = Inr data" "parse_token data = Inr x" "parse_items items = Inr xs'" "xs = x # xs'"
    by (auto simp: rbind_eq_Inr_iff)
  with Cons.IH [of xs'] show ?case
    by (simp add: parse_token_wf)
qed

lemma read_values_wf: "read_values fs filename = Inr xs \<Longrightarrow> list_all wf64 xs"
  by (auto simp: read_values_def parse_items_wf split: option.splits)

lemma read_values_rep64:
  assumes "read_values fs filename = Inr xs"
  shows "list_all (\<lambda>y. rnd y = y) (map val xs)"
proof -
  from read_values_wf [OF assms] have "\<forall>x \<in> set xs. rep64 (val x)"
    by (auto simp: list_all_iff intro: wf64_val)
  then show ?thesis
    by (simp add: list_all_iff)
qed

text \<open>The values of a file that can be read to its end: the converted tokens.\<close>

lemma parse_items_map_Inr:
  "parse_items (map Inr ts) = Inr xs \<longleftrightarrow> map parse_token ts = map Inr xs"
proof (induction ts arbitrary: xs)
  case Nil
  show ?case by auto
next
  case (Cons t ts)
  show ?case
    by (cases "parse_token t"; cases "parse_items (map Inr ts)"; cases xs)
      (auto simp: Cons.IH [symmetric])
qed

lemma read_values_readable:
  assumes "fs filename = Some (readable bs)"
  shows "read_values fs filename = Inr xs \<longleftrightarrow> map parse_token (tokens 0x20 bs) = map Inr xs"
  using assms
  by (simp add: read_values_def file_items_def readable_def parse_items_map_Inr split_eq_tokens)

section \<open>Pieces of a file\<close>

lemma tokens_append_delim: "d \<notin> set t \<Longrightarrow> tokens d (t @ d # bs) = t # tokens d bs"
  by (induction t) auto

lemma tokens_eq_Nil_iff [simp]: "tokens d bs = [] \<longleftrightarrow> bs = []"
  by (cases bs) (auto split: list.splits)

lemma tokens_last_piece: "d \<notin> set t \<Longrightarrow> t \<noteq> [] \<Longrightarrow> tokens d t = [t]"
proof (induction t)
  case Nil
  then show ?case by simp
next
  case (Cons a t)
  then show ?case
    by (cases "t = []") (auto split: list.splits)
qed

lemma tokens_no_delim: "t \<in> set (tokens d bs) \<Longrightarrow> d \<notin> set t"
  by (induction bs arbitrary: t) (auto split: if_splits list.splits)

lemma length_tokens:
  "length (tokens d bs) = count_list bs d + (if bs \<noteq> [] \<and> last bs \<noteq> d then 1 else 0)"
proof (induction bs)
  case Nil
  show ?case by simp
next
  case (Cons b bs)
  then show ?case
    by (cases "tokens d bs") (auto split: if_splits)
qed

lemma concat_tokens:
  "concat (map (\<lambda>t. t @ [d]) (tokens d bs)) = (if bs = [] \<or> last bs = d then bs else bs @ [d])"
proof (induction bs)
  case Nil
  show ?case by simp
next
  case (Cons b bs)
  then show ?case
    by (cases "tokens d bs") (auto split: if_splits)
qed

section \<open>The first failure decides\<close>

lemma parse_items_append_ok:
  assumes "list_all (\<lambda>it. is_ok (rbind it parse_token)) pre"
  shows "parse_items (pre @ rest) =
           rbind (parse_items pre) (\<lambda>xs. rbind (parse_items rest) (\<lambda>ys. Inr (xs @ ys)))"
  using assms
proof (induction pre)
  case Nil
  show ?case by simp
next
  case (Cons it pre)
  then obtain x where "rbind it parse_token = Inr x"
    by (auto simp: is_ok_iff)
  with Cons show ?case
    by (cases "parse_items pre"; cases "parse_items rest") simp_all
qed

lemma parse_items_ok:
  "list_all (\<lambda>it. is_ok (rbind it parse_token)) pre \<Longrightarrow> is_ok (parse_items pre)"
  by (induction pre) (auto simp: is_ok_iff)

lemma parse_items_first_failure:
  assumes "list_all (\<lambda>it. is_ok (rbind it parse_token)) pre"
    and "rbind item parse_token = Inl e"
  shows "parse_items (pre @ item # post) = Inl e"
proof -
  from parse_items_ok [OF assms(1)] obtain xs where "parse_items pre = Inr xs"
    by (auto simp: is_ok_iff)
  with assms show ?thesis
    by (simp add: parse_items_append_ok)
qed

lemma parse_items_read_error: "\<not> is_ok (parse_items (items @ [Inl e]))"
  by (induction items) (auto simp: is_ok_iff rbind_eq_Inr_iff)

lemma length_tokens_le: "length (tokens d bs) \<le> length bs"
  by (induction bs) (auto split: list.splits)

lemma read_values_length:
  assumes "fs filename = Some (readable bs)" "read_values fs filename = Inr xs"
  shows "length xs = length (tokens 0x20 bs)"
proof -
  from assms have "map parse_token (tokens 0x20 bs) = map Inr xs"
    by (simp add: read_values_readable [where bs = bs])
  from map_eq_imp_length_eq [OF this] show ?thesis
    by simp
qed

section \<open>Example files\<close>

definition bytes_of :: "string \<Rightarrow> u8 list" where
  "bytes_of s = map of_char s"

definition one_file :: "string \<Rightarrow> data_file \<Rightarrow> filesystem" where
  "one_file name f = (\<lambda>n. if n = name then Some f else None)"

abbreviation bigfile :: string where
  "bigfile \<equiv> ''testdata/bigfile.txt''"

definition fs_five :: filesystem where
  "fs_five = one_file bigfile (readable (bytes_of ''1 2 3 4 5''))"

definition fs_four :: filesystem where
  "fs_four = one_file bigfile (readable (bytes_of ''4 1 3 2''))"

definition fs_empty :: filesystem where
  "fs_empty = one_file bigfile (readable [])"

definition fs_bad :: filesystem where
  "fs_bad = one_file bigfile (readable (bytes_of ''1 2 x 4''))"

definition fs_fault :: filesystem where
  "fs_fault = one_file bigfile \<lparr>content = bytes_of ''1 2 3 4 5'', fault = Some 5\<rparr>"

definition fs_const :: filesystem where
  "fs_const = one_file bigfile (readable (bytes_of ''2 2 2''))"

definition fs_inf :: filesystem where
  "fs_inf = one_file bigfile (readable (bytes_of ''1 inf''))"

definition fs_nan :: filesystem where
  "fs_nan = one_file bigfile (readable (bytes_of ''nan 2 -NaN 1''))"

definition fs_newline :: filesystem where
  "fs_newline = one_file bigfile (readable (bytes_of ''1 2'' @ [0x0A]))"

text \<open>
  Files whose values are rounded or large: three times \<open>0.1\<close>, which is not a binary
  fraction; three adjacent doubles near \<open>10 ^ 16\<close>, where the doubles are \<open>2\<close> apart; two
  values whose sum is above the largest double.
\<close>

definition fs_tenths :: filesystem where
  "fs_tenths = one_file bigfile (readable (bytes_of ''0.1 0.1 0.1''))"

definition fs_big :: filesystem where
  "fs_big = one_file bigfile
     (readable (bytes_of ''10000000000000000 10000000000000002 10000000000000002''))"

definition fs_huge :: filesystem where
  "fs_huge = one_file bigfile (readable (bytes_of ''1e308 1.7e308''))"

definition tenth :: real where
  "tenth = 3602879701896397 / 2 ^ 55"

definition huge_lo :: real where
  "huge_lo = 5010420900022432 * 2 ^ 971"

definition huge_hi :: real where
  "huge_hi = 8517715530038134 * 2 ^ 971"

lemmas eval_scan =
  fs_five_def fs_four_def fs_empty_def fs_bad_def fs_fault_def fs_const_def fs_inf_def fs_nan_def
  fs_newline_def fs_tenths_def fs_big_def fs_huge_def bytes_of_def one_file_def
  scan_unfold complete_prefix_def split_eq_tokens parse_defs

lemma read_values_five: "read_values fs_five bigfile = Inr [Fin 1, Fin 2, Fin 3, Fin 4, Fin 5]"
  by (simp add: eval_scan)

lemma read_values_four: "read_values fs_four bigfile = Inr [Fin 4, Fin 1, Fin 3, Fin 2]"
  by (simp add: eval_scan)

lemma read_values_empty: "read_values fs_empty bigfile = Inr []"
  by (simp add: eval_scan)

lemma read_values_bad: "read_values fs_bad bigfile = Inl ParseFloatError"
  by (simp add: eval_scan)

lemma read_values_fault: "read_values fs_fault bigfile = Inl IoError"
  by (simp add: eval_scan)

lemma read_values_const: "read_values fs_const bigfile = Inr [Fin 2, Fin 2, Fin 2]"
  by (simp add: eval_scan)

lemma read_values_inf: "read_values fs_inf bigfile = Inr [Fin 1, Inf False]"
  by (simp add: eval_scan)

lemma read_values_nan: "read_values fs_nan bigfile = Inr [NaN False, Fin 2, NaN True, Fin 1]"
  by (simp add: eval_scan)

text \<open>Nothing is trimmed from a token: a line feed after the last number is part of it.\<close>

lemma read_values_newline: "read_values fs_newline bigfile = Inl ParseFloatError"
  by (simp add: eval_scan)

text \<open>The literals of the last three files, rounded.\<close>

lemma rnd_tenth: "rnd (1 / 10) = tenth"
  using rnd_scaled_down [of "2 ^ 56 / 10" 56] by (simp add: rhe_def Let_def tenth_def)

lemma rep64_tenth [simp]: "rep64 tenth"
  using rep64_dyadic [of 3602879701896397 55] by (simp add: tenth_def)

lemma rep64_big [simp]: "rep64 10000000000000000" "rep64 10000000000000002"
  using rep64_scaled [of 152587890625 16] rep64_scaled [of 5000000000000001 1] by simp_all

lemma rnd_huge_lo: "rnd (10 ^ 308) = huge_lo"
  using rnd_scaled_up [of "10 ^ 308 / 2 ^ 971" 971]
    rhe_unique [of "10 ^ 308 / 2 ^ 971" 5010420900022432]
  by (simp add: huge_lo_def)

lemma rnd_huge_hi: "rnd (17 * 10 ^ 307) = huge_hi"
  using rnd_scaled_up [of "17 * 10 ^ 307 / 2 ^ 971" 971]
    rhe_unique [of "17 * 10 ^ 307 / 2 ^ 971" 8517715530038134]
  by (simp add: huge_hi_def)

lemmas rnd_huge = rnd_huge_lo rnd_huge_hi

lemma rep64_huge [simp]: "rep64 huge_lo" "rep64 huge_hi"
  unfolding huge_lo_def huge_hi_def
  using rep64_scaled [of 5010420900022432 971] rep64_scaled [of 8517715530038134 971]
  by simp_all

lemma round64_tenth: "round64 False (1 / 10) = Fin tenth"
  by (rule round64_eval [OF rnd_tenth rep64_tenth]) (simp add: tenth_def)

lemma round64_huge:
  "round64 False (10 ^ 308) = Fin huge_lo" "round64 False (17 * 10 ^ 307) = Fin huge_hi"
  by (rule round64_eval [OF rnd_huge(1) rep64_huge(1)], simp add: huge_lo_def,
      rule round64_eval [OF rnd_huge(2) rep64_huge(2)], simp add: huge_hi_def)

lemma read_values_tenths: "read_values fs_tenths bigfile = Inr [Fin tenth, Fin tenth, Fin tenth]"
  using round64_tenth by (simp add: eval_scan)

lemma read_values_big:
  "read_values fs_big bigfile
     = Inr [Fin 10000000000000000, Fin 10000000000000002, Fin 10000000000000002]"
  by (simp add: eval_scan)

lemma read_values_huge: "read_values fs_huge bigfile = Inr [Fin huge_lo, Fin huge_hi]"
  using round64_huge by (simp add: eval_scan)

section \<open>Properties of the scan engine\<close>

text \<open>
  \<^bold>\<open>C1\<close> (refinement). A scan with any closure and any initial state is a fold of the
  closure over the values of the file, in file order, and fails with the error of
  \<open>read_values\<close> when the file cannot be opened, read or converted: the engine calls
  the closure exactly once per value and keeps nothing of its own.
\<close>

theorem for_file_refines:
  "for_file fs filename action s =
     rbind (read_values fs filename) (\<lambda>xs. Inr (fold action xs s))"
  by (cases "read_values fs filename") (simp_all add: for_file_Inr for_file_Inl)

text \<open>
  \<^bold>\<open>C17\<close> (error). The first item that cannot be read or converted decides the outcome
  of the loop: when all items before it convert, the scan returns its error, whatever
  the closure, the state and the items after it.
\<close>

theorem scan_first_failure:
  assumes "list_all (\<lambda>it. is_ok (rbind it parse_token)) pre"
    and "rbind item parse_token = Inl e"
  shows "scan_items action (pre @ item # post) s = Inl e"
  using parse_items_first_failure [OF assms] by (simp add: scan_items_parse_items)

theorem scan_first_failure_witness:
  "list_all (\<lambda>it. is_ok (rbind it parse_token)) [Inr (bytes_of ''1''), Inr (bytes_of ''2'')]
   \<and> rbind (Inr (bytes_of ''x'')) parse_token = Inl ParseFloatError
   \<and> scan_items (\<lambda>x n. n + 1) ([Inr (bytes_of ''1''), Inr (bytes_of ''2'')]
         @ Inr (bytes_of ''x'') # [Inr (bytes_of ''4'')]) (0 :: nat) = Inl ParseFloatError"
proof -
  have pre: "list_all (\<lambda>it. is_ok (rbind it parse_token)) [Inr (bytes_of ''1''), Inr (bytes_of ''2'')]"
    by (simp add: bytes_of_def parse_defs)
  have bad: "rbind (Inr (bytes_of ''x'')) parse_token = Inl ParseFloatError"
    by (simp add: bytes_of_def parse_defs)
  from pre bad
    scan_first_failure [OF pre bad, of "\<lambda>x n. n + 1" "[Inr (bytes_of ''4'')]" "0 :: nat"]
  show ?thesis
    by simp
qed

text \<open>
  \<^bold>\<open>C31\<close> (equivalence). The iterator of \<^verbatim>\<open>BufRead::split\<close>, which reads up to the next
  delimiter and drops it, yields the pieces between delimiters: a piece that is
  followed by a delimiter is yielded and the rest is split in the same way, and a
  non-empty rest without delimiter is the last piece.
\<close>

theorem split_pieces:
  assumes "d \<notin> set t"
  shows "split d (t @ d # bs) = t # split d bs \<and> (t \<noteq> [] \<longrightarrow> split d t = [t])"
  using assms by (simp add: split_eq_tokens tokens_append_delim tokens_last_piece)

theorem split_pieces_witness:
  "(0x20 :: u8) \<notin> set [0x31, 0x32]
   \<and> split 0x20 ([0x31, 0x32] @ 0x20 # [0x33]) = [0x31, 0x32] # split 0x20 [0x33]
   \<and> split 0x20 [0x31, 0x32 :: u8] = [[0x31, 0x32]]"
  using split_pieces [of "0x20" "[0x31, 0x32]" "[0x33]"] by simp

text \<open>
  \<^bold>\<open>C32\<close> (functional). The number of pieces of a file is the number of delimiters in it,
  plus one when the file does not end with a delimiter: a final blank adds no empty
  piece, every other blank ends one.
\<close>

theorem split_count:
  "length (split d bs) = count_list bs d + (if bs \<noteq> [] \<and> last bs \<noteq> d then 1 else 0)"
  by (simp only: split_eq_tokens length_tokens)

text \<open>
  \<^bold>\<open>C33\<close> (roundtrip). Splitting loses nothing but the delimiters: the pieces, each followed
  by the delimiter, give back the bytes of the file, with one delimiter added when the
  file did not end with one; and no piece contains the delimiter.
\<close>

theorem split_roundtrip:
  "concat (map (\<lambda>t. t @ [d]) (split d bs)) = (if bs = [] \<or> last bs = d then bs else bs @ [d])
   \<and> (\<forall>t \<in> set (split d bs). d \<notin> set t)"
  by (simp only: split_eq_tokens concat_tokens) (simp add: tokens_no_delim)

theorem split_roundtrip_witness:
  "concat (map (\<lambda>t. t @ [0x20]) (split 0x20 [0x31, 0x20, 0x32 :: u8])) = [0x31, 0x20, 0x32, 0x20]
   \<and> list_all (\<lambda>t. 0x20 \<notin> set t) (split 0x20 [0x31, 0x20, 0x32 :: u8])"
  using split_roundtrip [of "0x20" "[0x31, 0x20, 0x32]"] by (simp add: list_all_iff)

text \<open>
  \<^bold>\<open>C22\<close> (safety). A file that cannot be opened, or whose reading fails at some offset,
  never yields a result: whatever the closure, the scan returns an error, also when
  all tokens before the fault are numbers.
\<close>

theorem unreadable_file_fails:
  assumes "fs filename = None \<or> (\<exists>f n. fs filename = Some f \<and> fault f = Some n)"
  shows "\<not> is_ok (for_file fs filename action s)"
proof -
  from assms have "\<not> is_ok (read_values fs filename)"
    by (auto simp: read_values_def file_items_def parse_items_read_error)
  then obtain e where "read_values fs filename = Inl e"
    by (cases "read_values fs filename") simp_all
  then show ?thesis
    by (simp add: for_file_Inl)
qed

theorem unreadable_file_fails_witness:
  "(\<exists>f n. fs_fault bigfile = Some f \<and> fault f = Some n)
   \<and> for_file fs_fault bigfile (\<lambda>x n. n + 1) (0 :: nat) = Inl IoError
   \<and> for_file fs_five ''other.txt'' (\<lambda>x n. n + 1) (0 :: nat) = Inl IoError"
proof -
  have f: "\<exists>f n. fs_fault bigfile = Some f \<and> fault f = Some n"
    by (simp add: fs_fault_def one_file_def)
  have "for_file fs_fault bigfile (\<lambda>x n. n + 1) (0 :: nat) = Inl IoError"
    by (simp add: for_file_Inl [OF read_values_fault])
  moreover have "for_file fs_five ''other.txt'' (\<lambda>x n. n + 1) (0 :: nat) = Inl IoError"
    by (simp add: for_file_missing fs_five_def one_file_def)
  ultimately show ?thesis
    using unreadable_file_fails [of fs_fault bigfile "\<lambda>x n. n + 1" "0 :: nat"] f
    by simp
qed

end
