(* ===== verification/Float_Sum.thy ===== *)
theory Float_Sum
  imports Binary64
begin

text \<open>
  Sums of real numbers accumulated in binary64, as the closures of \<^verbatim>\<open>average\<close> and
  \<^verbatim>\<open>dispersion\<close> accumulate them: from the left, every partial sum rounded. \<open>fl_sum\<close> is
  the accumulated sum as a real number, \<open>sums_in_range\<close> says that no partial sum
  overflows and \<open>exact_sums\<close> that every partial sum is representable, so that nothing is
  rounded. The lemmas bound the distance of the accumulated sum to the exact sum.
\<close>

section \<open>Definitions\<close>

primrec fl_sum :: "real \<Rightarrow> real list \<Rightarrow> real" where
  "fl_sum s [] = s"
| "fl_sum s (y # ys) = fl_sum (rnd (s + y)) ys"

primrec sums_in_range :: "real \<Rightarrow> real list \<Rightarrow> bool" where
  "sums_in_range s [] \<longleftrightarrow> True"
| "sums_in_range s (y # ys) \<longleftrightarrow> \<bar>rnd (s + y)\<bar> < limit \<and> sums_in_range (rnd (s + y)) ys"

primrec exact_sums :: "real \<Rightarrow> real list \<Rightarrow> bool" where
  "exact_sums s [] \<longleftrightarrow> True"
| "exact_sums s (y # ys) \<longleftrightarrow> rep64 (s + y) \<and> exact_sums (s + y) ys"

text \<open>The sum of the magnitudes, and the factor by which \<open>n\<close> roundings can grow an error.\<close>

definition abs_sum :: "real list \<Rightarrow> real" where
  "abs_sum ys = (\<Sum>y\<leftarrow>ys. \<bar>y\<bar>)"

definition growth :: "nat \<Rightarrow> real" where
  "growth n = (1 + unit_roundoff) ^ n - 1"

section \<open>Exact accumulation\<close>

lemma exact_sums_fl_sum: "exact_sums s ys \<Longrightarrow> fl_sum s ys = s + sum_list ys"
  by (induction ys arbitrary: s) (simp_all add: algebra_simps)

lemma exact_sums_in_range: "exact_sums s ys \<Longrightarrow> sums_in_range s ys"
  by (induction ys arbitrary: s) (simp_all add: rep64_def)

lemma exact_sums_rep64: "rep64 s \<Longrightarrow> exact_sums s ys \<Longrightarrow> rep64 (s + sum_list ys)"
  by (induction ys arbitrary: s) (simp_all add: add.assoc [symmetric])

section \<open>The accumulated sum is a number of the format\<close>

lemma fl_sum_fixed: "rnd s = s \<Longrightarrow> rnd (fl_sum s ys) = fl_sum s ys"
  by (induction ys arbitrary: s) simp_all

lemma fl_sum_in_range: "\<bar>s\<bar> < limit \<Longrightarrow> sums_in_range s ys \<Longrightarrow> \<bar>fl_sum s ys\<bar> < limit"
  by (induction ys arbitrary: s) simp_all

lemma fl_sum_nonneg: "0 \<le> s \<Longrightarrow> list_all (\<lambda>y. 0 \<le> y) ys \<Longrightarrow> 0 \<le> fl_sum s ys"
  by (induction ys arbitrary: s) (simp_all add: rnd_nonneg)

section \<open>The error of the accumulated sum\<close>

lemma abs_sum_simps [simp]: "abs_sum [] = 0" "abs_sum (y # ys) = \<bar>y\<bar> + abs_sum ys"
  by (simp_all add: abs_sum_def)

lemma abs_sum_nonneg [simp]: "0 \<le> abs_sum ys"
  unfolding abs_sum_def by (rule sum_list_nonneg) auto

lemma abs_sum_le: "list_all (\<lambda>y. \<bar>y\<bar> \<le> M) ys \<Longrightarrow> abs_sum ys \<le> real (length ys) * M"
  by (induction ys) (simp_all add: algebra_simps)

lemma abs_sum_list: "\<bar>sum_list ys\<bar> \<le> abs_sum ys"
proof (induction ys)
  case Nil
  show ?case by simp
next
  case (Cons y ys)
  have "\<bar>y + sum_list ys\<bar> \<le> \<bar>y\<bar> + \<bar>sum_list ys\<bar>"
    by (rule abs_triangle_ineq)
  with Cons show ?case
    by simp
qed

lemma growth_simps [simp]: "growth 0 = 0" "growth (Suc n) = (1 + unit_roundoff) * growth n + unit_roundoff"
  by (simp_all add: growth_def algebra_simps)

lemma growth_nonneg [simp]: "0 \<le> growth n"
  by (induction n) simp_all

lemma growth_mono: "m \<le> n \<Longrightarrow> growth m \<le> growth n"
  unfolding growth_def by (simp add: power_increasing)

text \<open>
  One more addition multiplies the bound by \<open>1 + u\<close> and adds \<open>u\<close> times the magnitudes:
  the induction is on the list with the accumulator arbitrary.
\<close>

lemma one_step:
  fixes u g b a :: real
  assumes "0 \<le> u" "0 \<le> g" "0 \<le> a" "s1 \<le> (1 + u) * b"
  shows "g * (s1 + a) + u * b \<le> ((1 + u) * g + u) * (b + a)"
proof -
  from assms(3,4) have "s1 + a \<le> (1 + u) * b + a"
    by simp
  also from assms(1,3) have "\<dots> \<le> (1 + u) * b + (1 + u) * a"
    by (simp add: algebra_simps)
  finally have "g * (s1 + a) \<le> g * ((1 + u) * b + (1 + u) * a)"
    using assms(2) by (rule mult_left_mono)
  moreover from assms(1,3) have "u * b \<le> u * b + u * a"
    by simp
  ultimately show ?thesis
    by (simp add: algebra_simps)
qed

lemma fl_sum_error:
  assumes "rnd s = s" "list_all (\<lambda>y. rnd y = y) ys"
  shows "\<bar>fl_sum s ys - (s + sum_list ys)\<bar> \<le> growth (length ys) * (\<bar>s\<bar> + abs_sum ys)"
  using assms
proof (induction ys arbitrary: s)
  case Nil
  then show ?case by simp
next
  case (Cons y ys)
  define s1 where "s1 = rnd (s + y)"
  define b where "b = \<bar>s\<bar> + \<bar>y\<bar>"
  from Cons.prems have y: "rnd y = y" and ys: "list_all (\<lambda>y. rnd y = y) ys"
    by simp_all
  have "unit_roundoff * \<bar>s + y\<bar> \<le> unit_roundoff * b"
    unfolding b_def by (intro mult_left_mono) simp_all
  with rnd_add_error [OF Cons.prems(1) y] have e1: "\<bar>s1 - (s + y)\<bar> \<le> unit_roundoff * b"
    unfolding s1_def by linarith
  have "(1 + unit_roundoff) * \<bar>s + y\<bar> \<le> (1 + unit_roundoff) * b"
    unfolding b_def by (intro mult_left_mono) simp_all
  with rnd_add_bound [OF Cons.prems(1) y] have b1: "\<bar>s1\<bar> \<le> (1 + unit_roundoff) * b"
    unfolding s1_def by linarith
  have "rnd s1 = s1"
    by (simp add: s1_def)
  from Cons.IH [OF this ys]
  have "\<bar>fl_sum s1 ys - (s1 + sum_list ys)\<bar> \<le> growth (length ys) * (\<bar>s1\<bar> + abs_sum ys)" .
  with e1 have "\<bar>fl_sum s1 ys - (s + y + sum_list ys)\<bar>
      \<le> growth (length ys) * (\<bar>s1\<bar> + abs_sum ys) + unit_roundoff * b"
    by linarith
  also have "\<dots> \<le> ((1 + unit_roundoff) * growth (length ys) + unit_roundoff) * (b + abs_sum ys)"
    using b1 by (intro one_step) simp_all
  finally show ?case
    by (simp add: s1_def b_def add.assoc)
qed

lemma fl_sum_bound:
  assumes "rnd s = s" "list_all (\<lambda>y. rnd y = y) ys"
  shows "\<bar>fl_sum s ys\<bar> \<le> (1 + growth (length ys)) * (\<bar>s\<bar> + abs_sum ys)"
proof -
  have "\<bar>s + sum_list ys\<bar> \<le> \<bar>s\<bar> + abs_sum ys"
    using abs_sum_list [of ys] by linarith
  moreover have "(1 + growth (length ys)) * (\<bar>s\<bar> + abs_sum ys)
      = (\<bar>s\<bar> + abs_sum ys) + growth (length ys) * (\<bar>s\<bar> + abs_sum ys)"
    by (simp add: algebra_simps)
  ultimately show ?thesis
    using fl_sum_error [OF assms] by linarith
qed

text \<open>
  One addition under a bound \<open>B\<close> on the magnitudes grown by the roundings still to come:
  the sum is within the bound, and the bound holds again for the rounded sum.
\<close>

lemma sum_step_bound:
  assumes "rnd s = s" "rnd y = y" "0 \<le> g" "0 \<le> a"
    and total: "(1 + unit_roundoff) * (1 + g) * (\<bar>s\<bar> + \<bar>y\<bar> + a) \<le> B"
  shows "\<bar>s + y\<bar> \<le> B" "(1 + g) * (\<bar>rnd (s + y)\<bar> + a) \<le> B"
proof -
  define b where "b = \<bar>s\<bar> + \<bar>y\<bar>"
  have "\<bar>s + y\<bar> \<le> 1 * 1 * (b + a)"
    using assms(4) by (simp add: b_def)
  also have "\<dots> \<le> (1 + unit_roundoff) * (1 + g) * (b + a)"
    using assms(3,4) by (intro mult_right_mono mult_mono) (simp_all add: b_def)
  finally show "\<bar>s + y\<bar> \<le> B"
    using total by (simp add: b_def)
  have "(1 + unit_roundoff) * \<bar>s + y\<bar> \<le> (1 + unit_roundoff) * b"
    unfolding b_def by (intro mult_left_mono) simp_all
  with rnd_add_bound [OF assms(1,2)] have "\<bar>rnd (s + y)\<bar> \<le> (1 + unit_roundoff) * b"
    by linarith
  moreover have "1 * a \<le> (1 + unit_roundoff) * a"
    using assms(4) by (intro mult_right_mono) simp_all
  ultimately have "\<bar>rnd (s + y)\<bar> + a \<le> (1 + unit_roundoff) * b + (1 + unit_roundoff) * a"
    by linarith
  then have "\<bar>rnd (s + y)\<bar> + a \<le> (1 + unit_roundoff) * (b + a)"
    by (simp only: distrib_left)
  then have "(1 + g) * (\<bar>rnd (s + y)\<bar> + a) \<le> (1 + g) * ((1 + unit_roundoff) * (b + a))"
    using assms(3) by (intro mult_left_mono) simp_all
  with total show "(1 + g) * (\<bar>rnd (s + y)\<bar> + a) \<le> B"
    by (simp add: b_def mult.assoc mult.left_commute)
qed

lemma sums_in_range_bound:
  assumes "rnd s = s" "list_all (\<lambda>y. rnd y = y) ys"
    and "(1 + growth (length ys)) * (\<bar>s\<bar> + abs_sum ys) \<le> 2 ^ 1023"
  shows "sums_in_range s ys"
  using assms
proof (induction ys arbitrary: s)
  case Nil
  then show ?case by simp
next
  case (Cons y ys)
  from Cons.prems have y: "rnd y = y" and ys: "list_all (\<lambda>y. rnd y = y) ys"
    by simp_all
  have "(1 + unit_roundoff) * (1 + growth (length ys)) * (\<bar>s\<bar> + \<bar>y\<bar> + abs_sum ys) \<le> 2 ^ 1023"
    using Cons.prems(3) by (simp add: algebra_simps)
  from sum_step_bound [OF Cons.prems(1) y _ _ this]
  have "\<bar>s + y\<bar> \<le> 2 ^ 1023"
    and rest: "(1 + growth (length ys)) * (\<bar>rnd (s + y)\<bar> + abs_sum ys) \<le> 2 ^ 1023"
    by simp_all
  then have "\<bar>rnd (s + y)\<bar> < limit"
    by (intro rnd_in_range)
  with Cons.IH [OF _ ys rest] show ?case
    by simp
qed

text \<open>Up to \<open>2 ^ 52\<close> roundings the growth is at most twice the sum of the unit roundoffs.\<close>

lemma growth_linear: "n \<le> 2 ^ 52 \<Longrightarrow> growth n \<le> real n / 2 ^ 52"
proof (induction n)
  case 0
  then show ?case by simp
next
  case (Suc n)
  then have IH: "growth n \<le> real n / 2 ^ 52" and n: "real n \<le> 2 ^ 52"
    by simp_all
  have "growth (Suc n) = growth n + unit_roundoff * growth n + unit_roundoff"
    by (simp add: algebra_simps)
  also have "\<dots> \<le> real n / 2 ^ 52 + unit_roundoff * (real n / 2 ^ 52) + unit_roundoff"
    using IH by (intro add_mono mult_left_mono) simp_all
  also have "\<dots> \<le> real n / 2 ^ 52 + unit_roundoff * 1 + unit_roundoff"
    using n by (intro add_mono mult_left_mono) simp_all
  also have "\<dots> = real (Suc n) / 2 ^ 52"
    by (simp add: unit_roundoff_def field_simps)
  finally show ?case .
qed

lemma sums_in_range_small:
  assumes "list_all (\<lambda>y. rnd y = y) ys" "length ys \<le> 2 ^ 52" "abs_sum ys \<le> 2 ^ 1022"
  shows "sums_in_range 0 ys"
proof (rule sums_in_range_bound [OF _ assms(1)])
  from growth_linear [OF assms(2)] assms(2) have "growth (length ys) \<le> 1"
    by (simp add: field_simps)
  then have "(1 + growth (length ys)) * abs_sum ys \<le> 2 * abs_sum ys"
    by (intro mult_right_mono) simp_all
  with assms(3) show "(1 + growth (length ys)) * (\<bar>0\<bar> + abs_sum ys) \<le> 2 ^ 1023"
    by simp
qed simp

section \<open>The error of the mean\<close>

text \<open>
  The accumulated sum divided by the number of terms and rounded once more, against the
  exact mean: the error of the sum, divided, and the error of rounding the quotient,
  which has an absolute part because the quotient may be subnormal.
\<close>

lemma mean_error:
  assumes fixed: "list_all (\<lambda>y. rnd y = y) ys" and "ys \<noteq> []"
  shows "\<bar>rnd (fl_sum 0 ys / real (length ys)) - sum_list ys / real (length ys)\<bar>
           \<le> growth (Suc (length ys)) * (abs_sum ys / real (length ys)) + least_subnormal / 2"
proof -
  define n where "n = real (length ys)"
  define g where "g = growth (length ys)"
  define a where "a = abs_sum ys / n"
  define q where "q = fl_sum 0 ys / n"
  from assms(2) have n: "0 < n"
    by (simp add: n_def)
  have a: "0 \<le> a" and g: "0 \<le> g"
    using n by (simp_all add: a_def g_def)
  from fl_sum_error [OF _ fixed, of 0] have "\<bar>fl_sum 0 ys - sum_list ys\<bar> / n \<le> g * abs_sum ys / n"
    using n by (intro divide_right_mono) (simp_all add: g_def)
  then have e1: "\<bar>q - sum_list ys / n\<bar> \<le> g * a"
    using n by (simp add: q_def a_def diff_divide_distrib [symmetric])
  from fl_sum_bound [OF _ fixed, of 0] have "\<bar>fl_sum 0 ys\<bar> / n \<le> (1 + g) * abs_sum ys / n"
    using n by (intro divide_right_mono) (simp_all add: g_def)
  then have b1: "\<bar>q\<bar> \<le> (1 + g) * a"
    using n by (simp add: q_def a_def)
  have "\<bar>rnd q - q\<bar> \<le> unit_roundoff * \<bar>q\<bar> + least_subnormal / 2"
    by (rule rnd_error)
  also from b1 have "unit_roundoff * \<bar>q\<bar> \<le> unit_roundoff * ((1 + g) * a)"
    by (intro mult_left_mono) simp_all
  finally have "\<bar>rnd q - q\<bar> \<le> unit_roundoff * ((1 + g) * a) + least_subnormal / 2"
    by simp
  with e1 have "\<bar>rnd q - sum_list ys / n\<bar>
      \<le> unit_roundoff * ((1 + g) * a) + g * a + least_subnormal / 2"
    by linarith
  also have "unit_roundoff * ((1 + g) * a) + g * a = growth (Suc (length ys)) * a"
    by (simp add: g_def algebra_simps)
  finally show ?thesis
    by (simp only: q_def a_def n_def)
qed

end
