(* ===== verification/Stat_Library.thy ===== *)
theory Stat_Library
  imports Scan_Engine Float_Sum
begin

text \<open>
  The statistics of \<^verbatim>\<open>file_stat\<close> that need one or two scans: \<^verbatim>\<open>min_max\<close>, \<^verbatim>\<open>len\<close>,
  \<^verbatim>\<open>average\<close> and \<^verbatim>\<open>dispersion\<close>. Each closure of the source is a step function on the
  variables it captures (\<open>min_max_step\<close>, \<open>len_step\<close>, \<open>average_step\<close>, \<open>dispersion_step\<close>);
  the statistic runs \<open>for_file\<close> with it from the initial values and reads the result
  off the final state. The counters keep their width: \<^verbatim>\<open>usize\<close> and \<^verbatim>\<open>u64\<close> are 64-bit
  words that wrap.

  The lemmas describe each statistic in terms of the list of values of the file
  (\<open>read_values\<close>): the results on a list of finite values, on the empty list, and the
  propagation of the first error of the scan. The sums of \<^verbatim>\<open>average\<close> and \<^verbatim>\<open>dispersion\<close>
  are rounded at every addition: their results are given as the rounded accumulation
  (\<open>fl_sum\<close>), as the correctly rounded mean and variance when every partial sum is
  representable, and for \<^verbatim>\<open>average\<close> within an error bound in general.
\<close>

section \<open>Definitions\<close>

definition zip_option :: "'a option \<Rightarrow> 'b option \<Rightarrow> ('a \<times> 'b) option" where
  "zip_option a b = (case (a, b) of (Some x, Some y) \<Rightarrow> Some (x, y) | _ \<Rightarrow> None)"

definition unwrap_or :: "'a option \<Rightarrow> 'a \<Rightarrow> 'a" where
  "unwrap_or a d = (case a of None \<Rightarrow> d | Some x \<Rightarrow> x)"

definition min_max_step :: "f64 \<Rightarrow> f64 option \<times> f64 option \<Rightarrow> f64 option \<times> f64 option" where
  "min_max_step x acc =
     (case acc of (val_min, val_max) \<Rightarrow>
        (Some (fmin x (unwrap_or val_min x)), Some (fmax x (unwrap_or val_max x))))"

definition min_max :: "filesystem \<Rightarrow> string \<Rightarrow> (f64 \<times> f64) option result" where
  "min_max fs filename =
     rbind (for_file fs filename min_max_step (None, None))
       (\<lambda>(val_min, val_max). Inr (zip_option val_min val_max))"

definition len_step :: "f64 \<Rightarrow> usize \<Rightarrow> usize" where
  "len_step x sz = sz + 1"

definition len :: "filesystem \<Rightarrow> string \<Rightarrow> usize result" where
  "len fs filename = rbind (for_file fs filename len_step 0) (\<lambda>sz. Inr sz)"

definition average_step :: "f64 \<Rightarrow> f64 \<times> u64 \<Rightarrow> f64 \<times> u64" where
  "average_step x acc = (case acc of (acc_sum, n) \<Rightarrow> (fadd acc_sum x, n + 1))"

definition average :: "filesystem \<Rightarrow> string \<Rightarrow> f64 result" where
  "average fs filename =
     rbind (for_file fs filename average_step (Fin 0, 0))
       (\<lambda>(acc_sum, n). Inr (fdiv acc_sum (of_u64 n)))"

definition dispersion_step :: "f64 \<Rightarrow> f64 \<Rightarrow> f64 \<times> u64 \<Rightarrow> f64 \<times> u64" where
  "dispersion_step x_avr x acc =
     (case acc of (acc_sum, n) \<Rightarrow> (fadd acc_sum (fpowi (fsub x x_avr) 2), n + 1))"

definition dispersion :: "filesystem \<Rightarrow> string \<Rightarrow> f64 result" where
  "dispersion fs filename =
     rbind (average fs filename) (\<lambda>x_avr.
     rbind (for_file fs filename (dispersion_step x_avr) (Fin 0, 0))
       (\<lambda>(acc_sum, n). Inr (fdiv acc_sum (of_u64 n))))"

lemmas stat_unfold [stat_defs] =
  min_max_def min_max_step_def zip_option_def unwrap_or_def len_def len_step_def
  average_def average_step_def dispersion_def dispersion_step_def

section \<open>Specifications on lists\<close>

text \<open>Mean and population variance of a list of real numbers.\<close>

definition mean :: "real list \<Rightarrow> real" where
  "mean ys = sum_list ys / real (length ys)"

definition variance :: "real list \<Rightarrow> real" where
  "variance ys = (\<Sum>y\<leftarrow>ys. (y - mean ys)\<^sup>2) / real (length ys)"

text \<open>
  The squared distance to \<open>m\<close> as \<^verbatim>\<open>dispersion\<close> computes it, rounded after the subtraction
  and after the multiplication, and the lists on which none of the two overflows.
\<close>

definition sq_dev :: "real \<Rightarrow> real \<Rightarrow> real" where
  "sq_dev m y = rnd (rnd (y - m) * rnd (y - m))"

definition devs_in_range :: "real \<Rightarrow> real list \<Rightarrow> bool" where
  "devs_in_range m ys \<longleftrightarrow> list_all (\<lambda>y. \<bar>rnd (y - m)\<bar> < limit \<and> \<bar>sq_dev m y\<bar> < limit) ys"

text \<open>
  The lists on which \<^verbatim>\<open>dispersion\<close> rounds nothing before its last division: the partial
  sums, the mean, the distances to the mean, their squares and the partial sums of the
  squares are representable.
\<close>

definition exact_variance :: "real list \<Rightarrow> bool" where
  "exact_variance ys \<longleftrightarrow>
     exact_sums 0 ys \<and> rep64 (mean ys)
     \<and> list_all (\<lambda>y. rep64 (y - mean ys) \<and> rep64 ((y - mean ys)\<^sup>2)) ys
     \<and> exact_sums 0 (map (\<lambda>y. (y - mean ys)\<^sup>2) ys)"

lemma variance_nonneg: "0 \<le> variance ys"
  unfolding variance_def by (intro divide_nonneg_nonneg sum_list_nonneg) auto

lemma mean_replicate: "0 < n \<Longrightarrow> mean (replicate n c) = c"
  by (simp add: mean_def sum_list_replicate)

lemma variance_replicate: "variance (replicate n c) = 0"
  by (cases "n = 0") (simp_all add: variance_def mean_replicate map_replicate_const sum_list_replicate)

lemma sq_dev_nonneg [simp]: "0 \<le> sq_dev m y"
  unfolding sq_dev_def by (rule rnd_nonneg) simp

lemma sq_dev_exact: "rep64 (y - m) \<Longrightarrow> rep64 ((y - m)\<^sup>2) \<Longrightarrow> sq_dev m y = (y - m)\<^sup>2"
  by (simp add: sq_dev_def power2_eq_square)

lemma sq_dev_self [simp]: "sq_dev m m = 0"
  by (simp add: sq_dev_def)

section \<open>The accumulation steps over a list\<close>

lemma fold_len_step: "fold len_step xs k = k + of_nat (length xs)"
  by (induction xs arbitrary: k) (simp_all add: len_step_def algebra_simps)

lemma fold_min_max_step_Cons:
  "fold min_max_step (x # xs) (None, None) = fold min_max_step xs (Some x, Some x)"
  by (simp add: min_max_step_def unwrap_or_def)

lemma min_max_step_Some:
  "min_max_step x (Some a0, Some b0) = (Some (fmin x a0), Some (fmax x b0))"
  by (simp add: min_max_step_def unwrap_or_def)

lemma fold_min_max_step_finite:
  assumes "list_all is_finite xs" "is_finite a0" "is_finite b0"
  shows "\<exists>a b. fold min_max_step xs (Some a0, Some b0) = (Some a, Some b)
           \<and> is_finite a \<and> is_finite b
           \<and> val a = Min (insert (val a0) (val ` set xs))
           \<and> val b = Max (insert (val b0) (val ` set xs))"
  using assms
proof (induction xs arbitrary: a0 b0)
  case Nil
  then show ?case by simp
next
  case (Cons x xs)
  from Cons.prems have fin: "list_all is_finite xs" "is_finite (fmin x a0)" "is_finite (fmax x b0)"
    by simp_all
  from Cons.IH [OF fin] obtain a b where
    ab: "fold min_max_step xs (Some (fmin x a0), Some (fmax x b0)) = (Some a, Some b)"
      "is_finite a" "is_finite b"
      "val a = Min (insert (val (fmin x a0)) (val ` set xs))"
      "val b = Max (insert (val (fmax x b0)) (val ` set xs))"
    by blast
  from Cons.prems have "val (fmin x a0) = min (val x) (val a0)" "val (fmax x b0) = max (val x) (val b0)"
    by simp_all
  with ab show ?case
    by (simp add: min_max_step_Some Min_insert_min Max_insert_max)
qed

lemma fold_min_max_step_wf:
  assumes "list_all wf64 xs" "wf64 a0" "wf64 b0"
    and "fold min_max_step xs (Some a0, Some b0) = (Some a, Some b)"
  shows "wf64 a \<and> wf64 b"
  using assms
proof (induction xs arbitrary: a0 b0)
  case Nil
  then show ?case by simp
next
  case (Cons x xs)
  from Cons.prems have "list_all wf64 xs" "wf64 (fmin x a0)" "wf64 (fmax x b0)"
      "fold min_max_step xs (Some (fmin x a0), Some (fmax x b0)) = (Some a, Some b)"
    by (simp_all add: min_max_step_Some)
  then show ?case
    by (rule Cons.IH)
qed

lemma fold_average_step_finite:
  assumes "list_all is_finite xs" "is_finite s" "sums_in_range (val s) (map val xs)"
  shows "\<exists>s'. fold average_step xs (s, n) = (s', n + of_nat (length xs))
           \<and> is_finite s' \<and> val s' = fl_sum (val s) (map val xs)"
  using assms
proof (induction xs arbitrary: s n)
  case Nil
  then show ?case by simp
next
  case (Cons x xs)
  from Cons.prems have step: "is_finite (fadd s x)" "val (fadd s x) = rnd (val s + val x)"
    by (simp_all add: fadd_finite)
  with Cons.prems have "list_all is_finite xs" "sums_in_range (val (fadd s x)) (map val xs)"
    by simp_all
  from Cons.IH [OF this(1) step(1) this(2), of "n + 1"] step(2) show ?case
    by (auto simp: average_step_def algebra_simps)
qed

text \<open>One term of the sum of \<^verbatim>\<open>dispersion\<close>: the square by \<^verbatim>\<open>powi(2)\<close> of a difference.\<close>

lemma squared_deviation:
  assumes "is_finite x" "is_finite m"
    and "\<bar>rnd (val x - val m)\<bar> < limit" "\<bar>sq_dev (val m) (val x)\<bar> < limit"
  shows "is_finite (fpowi (fsub x m) 2)" "val (fpowi (fsub x m) 2) = sq_dev (val m) (val x)"
proof -
  from assms(1-3) have d: "is_finite (fsub x m)" "val (fsub x m) = rnd (val x - val m)"
    by (simp_all add: fsub_finite)
  then have "fpowi (fsub x m) 2 = round64 False (rnd (val x - val m) * rnd (val x - val m))"
    by (simp add: fpowi_2_round)
  with assms(4) show "is_finite (fpowi (fsub x m) 2)"
      "val (fpowi (fsub x m) 2) = sq_dev (val m) (val x)"
    by (simp_all add: sq_dev_def round64_finite_iff round64_val)
qed

lemma fold_dispersion_step_finite:
  assumes "list_all is_finite xs" "is_finite s" "is_finite m"
    and "devs_in_range (val m) (map val xs)"
    and "sums_in_range (val s) (map (sq_dev (val m)) (map val xs))"
  shows "\<exists>s'. fold (dispersion_step m) xs (s, n) = (s', n + of_nat (length xs))
           \<and> is_finite s' \<and> val s' = fl_sum (val s) (map (sq_dev (val m)) (map val xs))"
  using assms(1,2,4,5)
proof (induction xs arbitrary: s n)
  case Nil
  then show ?case by simp
next
  case (Cons x xs)
  let ?t = "fpowi (fsub x m) 2"
  from Cons.prems assms(3) have t: "is_finite ?t" "val ?t = sq_dev (val m) (val x)"
    by (simp_all add: squared_deviation devs_in_range_def)
  with Cons.prems have step: "is_finite (fadd s ?t)"
      "val (fadd s ?t) = rnd (val s + sq_dev (val m) (val x))"
    by (simp_all add: fadd_finite)
  with Cons.prems have rest: "list_all is_finite xs" "devs_in_range (val m) (map val xs)"
      "sums_in_range (val (fadd s ?t)) (map (sq_dev (val m)) (map val xs))"
    by (simp_all add: devs_in_range_def)
  from Cons.IH [OF rest(1) step(1) rest(2,3), of "n + 1"] step(2) show ?case
    by (auto simp: dispersion_step_def algebra_simps)
qed

text \<open>The counter converted to \<^verbatim>\<open>f64\<close>: exact up to \<open>2 ^ 53\<close> values.\<close>

lemma length_u64:
  assumes "0 < n" "n \<le> 2 ^ 53"
  shows "is_finite (of_u64 (of_nat n))" "val (of_u64 (of_nat n)) = real n"
    "val (of_u64 (of_nat n)) \<noteq> 0"
proof -
  from assms(2) have "n < 2 ^ 64"
    by (rule le_less_trans) simp
  then have "unat (of_nat n :: u64) = n"
    by (rule unat_of_nat_u64)
  with assms show "is_finite (of_u64 (of_nat n))" "val (of_u64 (of_nat n)) = real n"
      "val (of_u64 (of_nat n)) \<noteq> 0"
    by simp_all
qed

section \<open>Errors of the scan reach the caller\<close>

lemma stat_errors:
  assumes "read_values fs filename = Inl e"
  shows "len fs filename = Inl e" "min_max fs filename = Inl e"
    "average fs filename = Inl e" "dispersion fs filename = Inl e"
  using assms by (simp_all add: stat_unfold for_file_Inl)

section \<open>Results on the values of the file\<close>

lemma len_values: "read_values fs filename = Inr xs \<Longrightarrow> len fs filename = Inr (of_nat (length xs))"
  by (simp add: len_def for_file_Inr fold_len_step)

lemma min_max_Nil: "read_values fs filename = Inr [] \<Longrightarrow> min_max fs filename = Inr None"
  by (simp add: min_max_def for_file_Inr zip_option_def)

lemma average_Nil: "read_values fs filename = Inr [] \<Longrightarrow> average fs filename = Inr (NaN False)"
  by (simp add: average_def for_file_Inr of_u64_def zero_of_def)

text \<open>
  The files on which \<^verbatim>\<open>average\<close> is studied: not empty, at most \<open>2 ^ 53\<close> finite values, so
  that the counter is converted exactly.
\<close>

definition countable_values :: "filesystem \<Rightarrow> string \<Rightarrow> f64 list \<Rightarrow> bool" where
  "countable_values fs filename xs \<longleftrightarrow>
     read_values fs filename = Inr xs \<and> list_all is_finite xs \<and> xs \<noteq> []
     \<and> length xs \<le> 2 ^ 53"

lemma countable_valuesD:
  assumes "countable_values fs filename xs"
  shows "read_values fs filename = Inr xs" "list_all is_finite xs" "xs \<noteq> []"
    "0 < length xs" "length xs \<le> 2 ^ 53" "1 \<le> real (length xs)"
  using assms by (auto simp: countable_values_def Suc_le_eq)

lemma average_values:
  assumes cv: "countable_values fs filename xs" and range: "sums_in_range 0 (map val xs)"
  shows "\<exists>m. average fs filename = Inr m \<and> is_finite m
           \<and> val m = rnd (fl_sum 0 (map val xs) / real (length xs))"
proof -
  note v = countable_valuesD [OF cv]
  from fold_average_step_finite [OF v(2), of "Fin 0" 0] range obtain s where
    s: "fold average_step xs (Fin 0, 0) = (s, of_nat (length xs))" "is_finite s"
      "val s = fl_sum 0 (map val xs)"
    by auto
  note n = length_u64 [OF v(4,5)]
  have "rnd (val s) = val s" "\<bar>val s\<bar> < limit"
    using range by (simp_all add: s(3) fl_sum_fixed fl_sum_in_range)
  from rnd_div_in_range [OF this v(6)] s(2) n
  have "is_finite (fdiv s (of_u64 (of_nat (length xs))))"
      "val (fdiv s (of_u64 (of_nat (length xs)))) = rnd (val s / real (length xs))"
    by (simp_all add: fdiv_finite)
  with s v(1) show ?thesis
    by (simp add: average_def for_file_Inr)
qed

lemma average_exact:
  assumes "countable_values fs filename xs" "exact_sums 0 (map val xs)"
  shows "\<exists>m. average fs filename = Inr m \<and> is_finite m \<and> val m = rnd (mean (map val xs))"
  using average_values [OF assms(1) exact_sums_in_range [OF assms(2)]]
  by (simp add: exact_sums_fl_sum [OF assms(2)] mean_def)

lemma fold_min_max_step_Some:
  "\<exists>a b. fold min_max_step xs (Some a0, Some b0) = (Some a, Some b)"
  by (induction xs arbitrary: a0 b0) (simp_all add: min_max_step_def unwrap_or_def)

lemma min_max_values:
  assumes "read_values fs filename = Inr xs" "list_all is_finite xs" "xs \<noteq> []"
  shows "\<exists>a b. min_max fs filename = Inr (Some (a, b)) \<and> is_finite a \<and> is_finite b
           \<and> val a = Min (val ` set xs) \<and> val b = Max (val ` set xs)"
proof -
  from assms(3) obtain x xs' where xs: "xs = x # xs'"
    by (cases xs) auto
  with assms(2) have "list_all is_finite xs'" "is_finite x"
    by simp_all
  from fold_min_max_step_finite [OF this(1) this(2) this(2)] assms(1) show ?thesis
    by (auto simp: min_max_def for_file_Inr xs min_max_step_def unwrap_or_def zip_option_def)
qed

lemma min_max_wf:
  assumes "read_values fs filename = Inr xs" "min_max fs filename = Inr (Some (a, b))"
  shows "wf64 a \<and> wf64 b"
proof (cases xs)
  case Nil
  with assms show ?thesis
    by (simp add: min_max_Nil)
next
  case (Cons x xs')
  from read_values_wf [OF assms(1)] have wf: "list_all wf64 xs'" "wf64 x"
    by (simp_all add: Cons)
  from fold_min_max_step_Some [of xs' x x] obtain a' b' where
    f: "fold min_max_step xs' (Some x, Some x) = (Some a', Some b')"
    by blast
  with assms have "a' = a" "b' = b"
    by (simp_all add: min_max_def for_file_Inr Cons min_max_step_def unwrap_or_def zip_option_def)
  with fold_min_max_step_wf [OF wf(1) wf(2) wf(2) f] show ?thesis
    by simp
qed

text \<open>
  The dispersion in general: the rounded mean of the rounded squares of the rounded
  distances to the result of \<^verbatim>\<open>average\<close>.
\<close>

lemma dispersion_values:
  assumes cv: "countable_values fs filename xs"
    and avg: "average fs filename = Inr m" "is_finite m"
    and devs: "devs_in_range (val m) (map val xs)"
    and range: "sums_in_range 0 (map (sq_dev (val m)) (map val xs))"
  shows "\<exists>d. dispersion fs filename = Inr d \<and> is_finite d \<and> 0 \<le> val d
           \<and> val d = rnd (fl_sum 0 (map (sq_dev (val m)) (map val xs)) / real (length xs))"
proof -
  note v = countable_valuesD [OF cv]
  let ?sq = "map (sq_dev (val m)) (map val xs)"
  from fold_dispersion_step_finite [OF v(2) _ avg(2) devs, of "Fin 0" 0] range obtain s where
    s: "fold (dispersion_step m) xs (Fin 0, 0) = (s, of_nat (length xs))" "is_finite s"
      "val s = fl_sum 0 ?sq"
    by auto
  note n = length_u64 [OF v(4,5)]
  have fixed: "rnd (val s) = val s" "\<bar>val s\<bar> < limit"
    using range by (simp_all add: s(3) fl_sum_fixed fl_sum_in_range)
  have "0 \<le> fl_sum 0 ?sq"
    by (rule fl_sum_nonneg) (simp_all add: list_all_iff)
  then have "0 \<le> rnd (val s / real (length xs))"
    by (intro rnd_nonneg divide_nonneg_nonneg) (simp_all add: s(3))
  moreover from rnd_div_in_range [OF fixed v(6)] s(2) n
  have "is_finite (fdiv s (of_u64 (of_nat (length xs))))"
      "val (fdiv s (of_u64 (of_nat (length xs)))) = rnd (val s / real (length xs))"
    by (simp_all add: fdiv_finite)
  ultimately show ?thesis
    using s avg(1) v(1) by (simp add: dispersion_def for_file_Inr)
qed

lemma dispersion_exact:
  assumes cv: "countable_values fs filename xs" and ex: "exact_variance (map val xs)"
  shows "\<exists>d. dispersion fs filename = Inr d \<and> is_finite d \<and> 0 \<le> val d
           \<and> val d = rnd (variance (map val xs))"
proof -
  let ?ys = "map val xs"
  from ex have sums: "exact_sums 0 ?ys" and mean: "rep64 (mean ?ys)"
    and devs: "list_all (\<lambda>y. rep64 (y - mean ?ys) \<and> rep64 ((y - mean ?ys)\<^sup>2)) ?ys"
    and squares: "exact_sums 0 (map (\<lambda>y. (y - mean ?ys)\<^sup>2) ?ys)"
    by (simp_all add: exact_variance_def)
  from average_exact [OF cv sums] mean obtain m where
    m: "average fs filename = Inr m" "is_finite m" "val m = mean ?ys"
    by auto
  from devs have sq: "map (sq_dev (val m)) ?ys = map (\<lambda>y. (y - mean ?ys)\<^sup>2) ?ys"
    by (auto simp: m(3) list_all_iff sq_dev_exact)
  from devs have "devs_in_range (val m) ?ys"
    by (auto simp: devs_in_range_def m(3) list_all_iff sq_dev_exact rep64_def)
  moreover from squares have "sums_in_range 0 (map (sq_dev (val m)) ?ys)"
    unfolding sq by (rule exact_sums_in_range)
  ultimately obtain d where d: "dispersion fs filename = Inr d" "is_finite d" "0 \<le> val d"
      "val d = rnd (fl_sum 0 (map (sq_dev (val m)) ?ys) / real (length xs))"
    using dispersion_values [OF cv m(1,2)] by blast
  have "fl_sum 0 (map (sq_dev (val m)) ?ys) = (\<Sum>y\<leftarrow>?ys. (y - mean ?ys)\<^sup>2)"
    unfolding sq using exact_sums_fl_sum [OF squares] by simp
  with d(4) have "val d = rnd (variance ?ys)"
    by (simp add: variance_def)
  with d(1-3) show ?thesis
    by blast
qed

lemma fold_min_max_step_pos_inf:
  "Inf False \<in> set xs \<or> snd acc = Some (Inf False)
     \<Longrightarrow> snd (fold min_max_step xs acc) = Some (Inf False)"
  by (induction xs arbitrary: acc)
    (auto simp: min_max_step_def unwrap_or_def split: prod.splits option.splits)

lemma fold_min_max_step_neg_inf:
  "Inf True \<in> set xs \<or> fst acc = Some (Inf True)
     \<Longrightarrow> fst (fold min_max_step xs acc) = Some (Inf True)"
  by (induction xs arbitrary: acc)
    (auto simp: min_max_step_def unwrap_or_def split: prod.splits option.splits)

lemma min_max_infinity:
  assumes "read_values fs filename = Inr xs" "Inf s \<in> set xs"
  shows "\<exists>a b. min_max fs filename = Inr (Some (a, b)) \<and> \<not> (is_finite a \<and> is_finite b)"
proof -
  from assms(2) obtain x xs' where xs: "xs = x # xs'"
    by (cases xs) auto
  from fold_min_max_step_Some [of xs' x x] obtain a b where
    ab: "fold min_max_step xs (None, None) = (Some a, Some b)"
    by (auto simp: xs min_max_step_def unwrap_or_def)
  have "a = Inf True \<or> b = Inf False"
    using fold_min_max_step_pos_inf [of xs "(None, None)"]
      fold_min_max_step_neg_inf [of xs "(None, None)"] assms(2) ab
    by (cases s) auto
  with ab assms(1) show ?thesis
    by (auto simp: min_max_def for_file_Inr zip_option_def)
qed

lemma fold_min_max_step_not_nan:
  assumes "(\<exists>x \<in> set xs. \<not> is_nan x) \<or> (\<not> is_nan a0 \<and> \<not> is_nan b0)"
    and "fold min_max_step xs (Some a0, Some b0) = (Some a, Some b)"
  shows "\<not> is_nan a \<and> \<not> is_nan b"
  using assms
proof (induction xs arbitrary: a0 b0)
  case Nil
  then show ?case by simp
next
  case (Cons x xs)
  have step: "min_max_step x (Some a0, Some b0) = (Some (fmin x a0), Some (fmax x b0))"
    by (simp add: min_max_step_def unwrap_or_def)
  from Cons.prems(1) have
    "(\<exists>y \<in> set xs. \<not> is_nan y) \<or> (\<not> is_nan (fmin x a0) \<and> \<not> is_nan (fmax x b0))"
    by (cases "is_nan x") (auto simp: fmin_not_nan fmax_not_nan fmin_nan_receiver fmax_nan_receiver)
  from Cons.IH [OF this] Cons.prems(2) show ?case
    by (simp add: step)
qed




section \<open>Values of moderate magnitude\<close>

text \<open>
  Finite values of magnitude \<open>2 ^ 40\<close> at most, fewer than \<open>2 ^ 52\<close> of them: no sum, distance
  or square comes near the largest double, so \<^verbatim>\<open>average\<close> and \<^verbatim>\<open>dispersion\<close> return finite
  values.
\<close>

definition moderate :: "f64 list \<Rightarrow> bool" where
  "moderate xs \<longleftrightarrow> list_all (\<lambda>x. \<bar>val x\<bar> \<le> 2 ^ 40) xs"

lemma moderate_extrema:
  assumes "moderate xs" "xs \<noteq> []"
  shows "\<bar>Min (val ` set xs)\<bar> \<le> 2 ^ 40" "\<bar>Max (val ` set xs)\<bar> \<le> 2 ^ 40"
proof -
  from assms(2) have "Min (val ` set xs) \<in> val ` set xs" "Max (val ` set xs) \<in> val ` set xs"
    by (simp_all add: Min_in Max_in)
  with assms(1) show "\<bar>Min (val ` set xs)\<bar> \<le> 2 ^ 40" "\<bar>Max (val ` set xs)\<bar> \<le> 2 ^ 40"
    by (auto simp: moderate_def list_all_iff)
qed

lemma moderate_abs_sum:
  assumes "moderate xs"
  shows "abs_sum (map val xs) \<le> real (length xs) * 2 ^ 40"
  using abs_sum_le [of "2 ^ 40" "map val xs"] assms by (simp add: moderate_def list_all_iff)

lemma real_length_bound: "n < 2 ^ 52 \<Longrightarrow> real n \<le> 2 ^ 52"
  by (metis less_imp_le of_nat_le_iff of_nat_numeral of_nat_power)

lemma pow2_product_small: "i + j \<le> 1022 \<Longrightarrow> (2 :: real) ^ i * 2 ^ j \<le> 2 ^ 1022"
  unfolding power_add [symmetric] by (rule power_increasing) simp_all

lemma moderate_sums:
  assumes "read_values fs filename = Inr xs" "moderate xs" "length xs < 2 ^ 52"
  shows "abs_sum (map val xs) \<le> 2 ^ 1022" "sums_in_range 0 (map val xs)"
proof -
  note moderate_abs_sum [OF assms(2)]
  also from real_length_bound [OF assms(3)] have "real (length xs) * 2 ^ 40 \<le> 2 ^ 52 * 2 ^ 40"
    by (rule mult_right_mono) simp
  also have "(2 :: real) ^ 52 * 2 ^ 40 \<le> 2 ^ 1022"
    by (rule pow2_product_small) simp
  finally show small: "abs_sum (map val xs) \<le> 2 ^ 1022" .
  from assms(3) show "sums_in_range 0 (map val xs)"
    by (intro sums_in_range_small read_values_rep64 [OF assms(1)] small) simp
qed

lemma average_moderate:
  assumes cv: "countable_values fs filename xs" and "moderate xs" "length xs < 2 ^ 52"
  shows "\<exists>m. average fs filename = Inr m \<and> is_finite m \<and> \<bar>val m\<bar> \<le> 2 ^ 41"
proof -
  let ?ys = "map val xs"
  note v = countable_valuesD [OF cv]
  note s = moderate_sums [OF v(1) assms(2,3)]
  from average_values [OF cv s(2)] obtain m where
    m: "average fs filename = Inr m" "is_finite m"
      "val m = rnd (fl_sum 0 ?ys / real (length xs))"
    by blast
  from assms(3) have "growth (length ?ys) \<le> real (length ?ys) / 2 ^ 52"
    by (intro growth_linear) simp
  also from real_length_bound [OF assms(3)] have "\<dots> \<le> 1"
    by simp
  finally have "(1 + growth (length ?ys)) * abs_sum ?ys \<le> 2 * abs_sum ?ys"
    by (intro mult_right_mono) simp_all
  moreover from moderate_abs_sum [OF assms(2)]
  have "2 * abs_sum ?ys \<le> 2 * (real (length xs) * 2 ^ 40)"
    by (rule mult_left_mono) simp
  ultimately have "\<bar>fl_sum 0 ?ys\<bar> \<le> 2 ^ 41 * real (length xs)"
    using fl_sum_bound [OF _ read_values_rep64 [OF v(1)], of 0] by simp
  then have "\<bar>fl_sum 0 ?ys\<bar> / real (length xs) \<le> 2 ^ 41 * real (length xs) / real (length xs)"
    by (rule divide_right_mono) simp
  with v(4) have "\<bar>fl_sum 0 ?ys / real (length xs)\<bar> \<le> 2 ^ 41"
    by simp
  then have "\<bar>val m\<bar> \<le> 2 ^ 41"
    unfolding m(3) by (rule rnd_abs_le_pow2)
  with m(1,2) show ?thesis
    by blast
qed

lemma moderate_deviation:
  assumes "\<bar>y\<bar> \<le> 2 ^ 40" "\<bar>m\<bar> \<le> 2 ^ 41"
  shows "\<bar>rnd (y - m)\<bar> \<le> 2 ^ 42" "\<bar>sq_dev m y\<bar> \<le> 2 ^ 84"
proof -
  from assms have "\<bar>y - m\<bar> \<le> 2 ^ 42"
    by simp
  then show d: "\<bar>rnd (y - m)\<bar> \<le> 2 ^ 42"
    by (rule rnd_abs_le_pow2)
  then have "\<bar>rnd (y - m)\<bar> * \<bar>rnd (y - m)\<bar> \<le> 2 ^ 42 * 2 ^ 42"
    by (intro mult_mono) simp_all
  then have "\<bar>rnd (y - m) * rnd (y - m)\<bar> \<le> 2 ^ 84"
    by (simp add: abs_mult)
  then show "\<bar>sq_dev m y\<bar> \<le> 2 ^ 84"
    unfolding sq_dev_def by (rule rnd_abs_le_pow2)
qed

lemma dispersion_moderate:
  assumes cv: "countable_values fs filename xs" and "moderate xs" "length xs < 2 ^ 52"
  shows "\<exists>m d. average fs filename = Inr m \<and> dispersion fs filename = Inr d \<and> is_finite d
           \<and> 0 \<le> val d
           \<and> val d = rnd (fl_sum 0 (map (sq_dev (val m)) (map val xs)) / real (length xs))"
proof -
  let ?ys = "map val xs"
  from average_moderate [OF assms] obtain m where
    m: "average fs filename = Inr m" "is_finite m" "\<bar>val m\<bar> \<le> 2 ^ 41"
    by blast
  let ?sq = "map (sq_dev (val m)) ?ys"
  from assms(2) have dev: "\<bar>rnd (y - val m)\<bar> \<le> 2 ^ 42" "\<bar>sq_dev (val m) y\<bar> \<le> 2 ^ 84"
    if "y \<in> set ?ys" for y
    using that moderate_deviation [OF _ m(3), of y] by (auto simp: moderate_def list_all_iff)
  have "\<bar>rnd (y - val m)\<bar> < limit \<and> \<bar>sq_dev (val m) y\<bar> < limit" if "y \<in> set ?ys" for y
    using dev [OF that] pow2_less_limit [of 42] pow2_less_limit [of 84] by simp
  then have devs: "devs_in_range (val m) ?ys"
    unfolding devs_in_range_def list_all_iff by blast
  from dev(2) have "abs_sum ?sq \<le> real (length ?sq) * 2 ^ 84"
    by (intro abs_sum_le) (simp add: list_all_iff)
  also from real_length_bound [OF assms(3)] have "real (length ?sq) * 2 ^ 84 \<le> 2 ^ 52 * 2 ^ 84"
    by (intro mult_right_mono) simp_all
  also have "(2 :: real) ^ 52 * 2 ^ 84 \<le> 2 ^ 1022"
    by (rule pow2_product_small) simp
  finally have small: "abs_sum ?sq \<le> 2 ^ 1022" .
  have "list_all (\<lambda>y. rnd y = y) ?sq"
    by (simp add: list_all_iff sq_dev_def)
  moreover from assms(3) have "length ?sq \<le> 2 ^ 52"
    by simp
  ultimately have "sums_in_range 0 ?sq"
    using small by (rule sums_in_range_small)
  from dispersion_values [OF cv m(1,2) devs this] m(1) show ?thesis
    by blast
qed

text \<open>The error of \<^verbatim>\<open>average\<close> against the exact mean, from the error of the accumulated sum.\<close>

lemma average_error_bound:
  assumes "countable_values fs filename xs" "length xs < 2 ^ 52"
    and "abs_sum (map val xs) \<le> 2 ^ 1022"
  shows "\<exists>m. average fs filename = Inr m \<and> is_finite m
           \<and> \<bar>val m - mean (map val xs)\<bar>
               \<le> real (length xs + 1) / 2 ^ 52 * (abs_sum (map val xs) / real (length xs))
                 + least_subnormal / 2"
proof -
  let ?ys = "map val xs"
  note v = countable_valuesD [OF assms(1)]
  have fixed: "list_all (\<lambda>y. rnd y = y) ?ys"
    using v(1) by (rule read_values_rep64)
  from assms(2) have "sums_in_range 0 ?ys"
    by (intro sums_in_range_small fixed assms(3)) simp
  from average_values [OF assms(1) this] obtain m where
    m: "average fs filename = Inr m" "is_finite m"
      "val m = rnd (fl_sum 0 ?ys / real (length xs))"
    by blast
  from assms(2) have "growth (Suc (length ?ys)) \<le> real (Suc (length ?ys)) / 2 ^ 52"
    by (intro growth_linear) simp
  then have "growth (Suc (length ?ys)) * (abs_sum ?ys / real (length ?ys))
      \<le> real (Suc (length ?ys)) / 2 ^ 52 * (abs_sum ?ys / real (length ?ys))"
    by (rule mult_right_mono) simp
  with mean_error [OF fixed] v(3) m show ?thesis
    by (auto simp: mean_def)
qed

section \<open>The file of three tenths\<close>

text \<open>
  The sum of three times the double nearest to \<open>0.1\<close> is rounded up at its last addition,
  and so is its third: the average of the file is one unit in the last place above its
  values, and their distance to it is not zero.
\<close>

definition three_tenths :: real where
  "three_tenths = 1351079888211149 / 2 ^ 52"

definition tenth_above :: real where
  "tenth_above = 7205759403792795 / 2 ^ 56"

lemma rnd_two_tenths: "rnd (2 * tenth) = 2 * tenth"
  using rnd_double [of tenth] by simp

lemma rnd_three_tenths: "rnd (3 * tenth) = three_tenths"
  using rnd_scaled_down [of "10808639105689191 / 2" 54]
  by (simp add: rhe_def Let_def tenth_def three_tenths_def)

lemma tenths_in_range: "\<bar>tenth\<bar> < limit" "\<bar>2 * tenth\<bar> < limit" "\<bar>three_tenths\<bar> < limit"
  by (rule small_in_range, simp add: tenth_def three_tenths_def)+

lemma rnd_third: "rnd (three_tenths / 3) = tenth_above"
  using rnd_scaled_down [of "1351079888211149 * 16 / 3" 56]
  by (simp add: rhe_def Let_def tenth_above_def three_tenths_def)

lemma tenth_less: "tenth < tenth_above" "tenth - tenth_above = - (1 / 2 ^ 56)"
  by (simp_all add: tenth_def tenth_above_def)

lemma countable_values_tenths:
  "countable_values fs_tenths bigfile [Fin tenth, Fin tenth, Fin tenth]"
  by (simp add: countable_values_def read_values_tenths)

lemma fl_sum_tenths: "fl_sum 0 [tenth, tenth, tenth] = three_tenths"
  by (simp add: rnd_two_tenths rnd_three_tenths)

lemma sums_in_range_tenths: "sums_in_range 0 [tenth, tenth, tenth]"
  by (simp add: rnd_two_tenths rnd_three_tenths tenths_in_range)

lemma average_tenths:
  "\<exists>m. average fs_tenths bigfile = Inr m \<and> is_finite m \<and> val m = tenth_above"
proof -
  have "sums_in_range 0 (map val [Fin tenth, Fin tenth, Fin tenth])"
    using sums_in_range_tenths by simp
  from average_values [OF countable_values_tenths this] obtain m where
    "average fs_tenths bigfile = Inr m" "is_finite m"
    "val m = rnd (fl_sum 0 [tenth, tenth, tenth] / 3)"
    by auto
  then show ?thesis
    by (simp only: fl_sum_tenths rnd_third) blast
qed

lemma rnd_gap: "rnd (tenth - tenth_above) = - (1 / 2 ^ 56)"
  unfolding tenth_less(2) rnd_minus using rnd_dyadic [of 1 56] by simp

lemma sq_dev_tenth: "sq_dev tenth_above tenth = 1 / 2 ^ 112"
proof -
  have "rnd (tenth - tenth_above) * rnd (tenth - tenth_above) = 1 / 2 ^ 112"
    unfolding rnd_gap by (simp add: power2_eq_square [symmetric] power_divide)
  moreover have "rnd (1 / 2 ^ 112) = 1 / 2 ^ 112"
    using rnd_dyadic [of 1 112] by simp
  ultimately show ?thesis
    by (simp only: sq_dev_def)
qed

lemma devs_tenths: "devs_in_range tenth_above [tenth, tenth, tenth]"
proof -
  have "\<bar>1 / 2 ^ 56 :: real\<bar> < limit" "\<bar>1 / 2 ^ 112 :: real\<bar> < limit"
    by (rule small_in_range, simp)+
  then show ?thesis
    by (simp add: devs_in_range_def sq_dev_tenth rnd_gap)
qed

lemma squares_tenths:
  "sums_in_range 0 (map (sq_dev tenth_above) [tenth, tenth, tenth])"
  "fl_sum 0 (map (sq_dev tenth_above) [tenth, tenth, tenth]) = 3 / 2 ^ 112"
proof -
  have r: "rep64 (1 / 2 ^ 112)" "rep64 (2 / 2 ^ 112)" "rep64 (3 / 2 ^ 112)"
    using rep64_dyadic [of 1 112] rep64_dyadic [of 2 112] rep64_dyadic [of 3 112] by simp_all
  have e: "exact_sums 0 (map (sq_dev tenth_above) [tenth, tenth, tenth])"
    using r by (simp add: sq_dev_tenth)
  from e show "sums_in_range 0 (map (sq_dev tenth_above) [tenth, tenth, tenth])"
    by (rule exact_sums_in_range)
  from exact_sums_fl_sum [OF e]
  show "fl_sum 0 (map (sq_dev tenth_above) [tenth, tenth, tenth]) = 3 / 2 ^ 112"
    by (simp add: sq_dev_tenth)
qed

lemma rnd_third_tiny: "rnd (3 / 2 ^ 112 / 3) = 1 / 2 ^ 112"
  using rnd_dyadic [of 1 112] by simp

text \<open>
  The average can leave the range of the values: on the file
  \<^verbatim>\<open>0.1 0.1 0.1\<close> all values are the double nearest to \<open>0.1\<close>, their accumulated sum is
  rounded up, and \<^verbatim>\<open>average\<close> returns the next double above the maximum that \<^verbatim>\<open>min_max\<close>
  returns.
\<close>

lemma average_above_maximum:
  "\<exists>a b m. min_max fs_tenths bigfile = Inr (Some (a, b)) \<and> average fs_tenths bigfile = Inr m
     \<and> val a = tenth \<and> val b = tenth \<and> val m = tenth_above \<and> val b < val m"
proof -
  from countable_values_tenths have rv:
      "read_values fs_tenths bigfile = Inr [Fin tenth, Fin tenth, Fin tenth]"
    by (simp add: countable_values_def)
  from min_max_values [OF rv] average_tenths show ?thesis
    by (auto simp: tenth_less)
qed

section \<open>Properties of the statistics\<close>

text \<open>
  \<^bold>\<open>C15\<close> (bounds). \<^verbatim>\<open>len\<close> returns the number of values of the file: as long as there are
  fewer than \<open>2 ^ 64\<close> of them the \<^verbatim>\<open>usize\<close> counter has not wrapped and reads as the
  length of the list of values.
\<close>

theorem len_counts:
  assumes "read_values fs filename = Inr xs" "length xs < 2 ^ 64"
  shows "\<exists>n. len fs filename = Inr n \<and> unat n = length xs"
  using assms by (simp add: len_values unat_of_nat_u64)

theorem len_counts_witness:
  "read_values fs_five bigfile = Inr [Fin 1, Fin 2, Fin 3, Fin 4, Fin 5]
   \<and> length [Fin 1, Fin 2, Fin 3, Fin 4, Fin 5] < 2 ^ 64
   \<and> (\<exists>n. len fs_five bigfile = Inr n \<and> unat n = 5)"
proof -
  have five: "Suc (Suc (Suc (Suc (Suc 0)))) = 5"
    by simp
  from len_counts [OF read_values_five] show ?thesis
    by (simp add: read_values_five five)
qed


text \<open>
  \<^bold>\<open>C14\<close> (functional). On a file of finite values that is not empty, \<^verbatim>\<open>min_max\<close> returns
  a pair of finite values that stand for the least and the greatest number of the
  file.
\<close>

theorem min_max_extrema:
  assumes "read_values fs filename = Inr xs" "list_all is_finite xs" "xs \<noteq> []"
  shows "\<exists>a b. min_max fs filename = Inr (Some (a, b)) \<and> is_finite a \<and> is_finite b
           \<and> val a = Min (val ` set xs) \<and> val b = Max (val ` set xs)"
  using assms by (rule min_max_values)

theorem min_max_extrema_witness:
  "read_values fs_five bigfile = Inr [Fin 1, Fin 2, Fin 3, Fin 4, Fin 5]
   \<and> list_all is_finite [Fin 1, Fin 2, Fin 3, Fin 4, Fin 5]
   \<and> (\<exists>a b. min_max fs_five bigfile = Inr (Some (a, b)) \<and> val a = 1 \<and> val b = 5)"
proof -
  have "list_all is_finite [Fin 1, Fin 2, Fin 3, Fin 4, Fin 5]"
    by simp
  from min_max_extrema [OF read_values_five this] show ?thesis
    by (auto simp: read_values_five)
qed


text \<open>
  \<^bold>\<open>C37\<close> (functional). \<^verbatim>\<open>min_max\<close> returns \<^verbatim>\<open>None\<close> exactly on a file without values;
  the values may be anything, NaN included.
\<close>

theorem min_max_none_iff:
  assumes "read_values fs filename = Inr xs"
  shows "min_max fs filename = Inr None \<longleftrightarrow> xs = []"
proof (cases xs)
  case Nil
  with assms show ?thesis by (simp add: min_max_Nil)
next
  case (Cons x xs')
  from fold_min_max_step_Some [of xs' x x] assms show ?thesis
    by (auto simp: min_max_def for_file_Inr Cons min_max_step_def unwrap_or_def zip_option_def)
qed

theorem min_max_none_iff_witness:
  "read_values fs_empty bigfile = Inr [] \<and> min_max fs_empty bigfile = Inr None"
  using min_max_none_iff [OF read_values_empty] by (simp add: read_values_empty)


text \<open>
  \<^bold>\<open>C10\<close> (functional). On a non-empty file of at most \<open>2 ^ 53\<close> finite values whose
  partial sums, taken in the order of the file, are all representable, as on a file of
  integers of moderate size, \<^verbatim>\<open>average\<close> returns the correctly rounded mean: the double
  nearest to the sum of the numbers divided by how many there are.
\<close>

theorem average_is_mean:
  assumes "countable_values fs filename xs" "exact_sums 0 (map val xs)"
  shows "\<exists>m. average fs filename = Inr m \<and> is_finite m
           \<and> val m = rnd (sum_list (map val xs) / real (length xs))"
  using average_exact [OF assms] by (simp add: mean_def)

theorem average_is_mean_witness:
  "countable_values fs_five bigfile [Fin 1, Fin 2, Fin 3, Fin 4, Fin 5]
   \<and> exact_sums 0 (map val [Fin 1, Fin 2, Fin 3, Fin 4, Fin 5])
   \<and> (\<exists>m. average fs_five bigfile = Inr m \<and> val m = 3)"
proof -
  have cv: "countable_values fs_five bigfile [Fin 1, Fin 2, Fin 3, Fin 4, Fin 5]"
    by (simp add: countable_values_def read_values_five)
  have ex: "exact_sums 0 (map val [Fin 1, Fin 2, Fin 3, Fin 4, Fin 5])"
    by simp
  from average_is_mean [OF cv ex] cv ex show ?thesis
    by auto
qed

text \<open>
  \<^bold>\<open>C11\<close> (bounds). In general the sum of \<^verbatim>\<open>average\<close> is rounded at every addition. On a
  non-empty file of fewer than \<open>2 ^ 52\<close> finite values whose magnitudes add up to at most
  \<open>2 ^ 1022\<close> nothing overflows, and the result differs from the exact mean of the values
  by at most \<open>(n + 1) / 2 ^ 52\<close> times the mean of their magnitudes, plus half the least
  subnormal number.
\<close>

theorem average_error:
  assumes "countable_values fs filename xs" "length xs < 2 ^ 52"
    and "abs_sum (map val xs) \<le> 2 ^ 1022"
  shows "\<exists>m. average fs filename = Inr m \<and> is_finite m
           \<and> \<bar>val m - mean (map val xs)\<bar>
               \<le> real (length xs + 1) / 2 ^ 52 * (abs_sum (map val xs) / real (length xs))
                 + least_subnormal / 2"
  using assms by (rule average_error_bound)

theorem average_error_witness:
  "countable_values fs_tenths bigfile [Fin tenth, Fin tenth, Fin tenth]
   \<and> (\<exists>m. average fs_tenths bigfile = Inr m
         \<and> \<bar>val m - tenth\<bar> \<le> 4 / 2 ^ 52 * tenth + least_subnormal / 2)"
proof -
  have "0 \<le> tenth" "tenth \<le> 1"
    by (simp_all add: tenth_def)
  then have "abs_sum (map val [Fin tenth, Fin tenth, Fin tenth]) \<le> 3"
    by simp
  also have "(3 :: real) \<le> 2 ^ 1022"
    by (rule order_trans [of _ "2 ^ 2"]) (simp, rule power_increasing, simp_all)
  finally obtain m where "average fs_tenths bigfile = Inr m"
      "\<bar>val m - mean (map val [Fin tenth, Fin tenth, Fin tenth])\<bar>
         \<le> real (length [Fin tenth, Fin tenth, Fin tenth] + 1) / 2 ^ 52
             * (abs_sum (map val [Fin tenth, Fin tenth, Fin tenth])
                / real (length [Fin tenth, Fin tenth, Fin tenth]))
           + least_subnormal / 2"
    using average_error [OF countable_values_tenths] by auto
  with \<open>0 \<le> tenth\<close> have "average fs_tenths bigfile = Inr m
      \<and> \<bar>val m - tenth\<bar> \<le> 4 / 2 ^ 52 * tenth + least_subnormal / 2"
    by (simp add: mean_def)
  with countable_values_tenths show ?thesis
    by blast
qed

text \<open>
  \<^bold>\<open>C36\<close> (error). On a file without values \<^verbatim>\<open>average\<close> divides zero by zero: it
  returns NaN as a success and no error.
\<close>

theorem average_empty_nan:
  assumes "read_values fs filename = Inr []"
  shows "\<exists>m. average fs filename = Inr m \<and> is_nan m"
  using assms by (simp add: average_Nil)

theorem average_empty_nan_witness:
  "read_values fs_empty bigfile = Inr [] \<and> (\<exists>m. average fs_empty bigfile = Inr m \<and> is_nan m)"
  using average_empty_nan [OF read_values_empty] by (simp add: read_values_empty)


text \<open>
  \<^bold>\<open>C35\<close> (invariant). When the partial sums are representable the average lies between
  the minimum and the maximum that \<^verbatim>\<open>min_max\<close> returns, because rounding is monotone and
  leaves the two extrema as they are. The hypothesis is needed: on the file \<^verbatim>\<open>0.1 0.1 0.1\<close>
  the average is above the maximum.
\<close>

theorem mean_within_extrema:
  assumes "countable_values fs filename xs" "exact_sums 0 (map val xs)"
  shows "\<exists>a b m. min_max fs filename = Inr (Some (a, b)) \<and> average fs filename = Inr m
           \<and> val a \<le> val m \<and> val m \<le> val b"
proof -
  let ?ys = "map val xs"
  note v = countable_valuesD [OF assms(1)]
  from min_max_values [OF v(1-3)] obtain a b where
    ab: "min_max fs filename = Inr (Some (a, b))" "is_finite a" "is_finite b"
      "val a = Min (set ?ys)" "val b = Max (set ?ys)"
    by auto
  from average_exact [OF assms] obtain m where
    m: "average fs filename = Inr m" "val m = rnd (mean ?ys)"
    by blast
  from min_max_wf [OF v(1) ab(1)] have "rnd (val a) = val a" "rnd (val b) = val b"
    by (simp_all add: wf64_val)
  moreover from v(3) have "?ys \<noteq> []"
    by simp
  from mean_between [OF this] have "val a \<le> mean ?ys" "mean ?ys \<le> val b"
    by (simp_all add: mean_def ab)
  ultimately have "val a \<le> rnd (mean ?ys)" "rnd (mean ?ys) \<le> val b"
    by (rule rnd_between)+
  with ab(1) m show ?thesis
    by simp
qed

theorem mean_within_extrema_witness:
  "countable_values fs_five bigfile [Fin 1, Fin 2, Fin 3, Fin 4, Fin 5]
   \<and> exact_sums 0 (map val [Fin 1, Fin 2, Fin 3, Fin 4, Fin 5])
   \<and> (\<exists>a b m. min_max fs_five bigfile = Inr (Some (a, b)) \<and> average fs_five bigfile = Inr m
           \<and> val a \<le> val m \<and> val m \<le> val b)
   \<and> (\<exists>a b m. min_max fs_tenths bigfile = Inr (Some (a, b))
           \<and> average fs_tenths bigfile = Inr m \<and> val b < val m)"
proof -
  have cv: "countable_values fs_five bigfile [Fin 1, Fin 2, Fin 3, Fin 4, Fin 5]"
    by (simp add: countable_values_def read_values_five)
  have ex: "exact_sums 0 (map val [Fin 1, Fin 2, Fin 3, Fin 4, Fin 5])"
    by simp
  from average_above_maximum
  have "\<exists>a b m. min_max fs_tenths bigfile = Inr (Some (a, b))
      \<and> average fs_tenths bigfile = Inr m \<and> val b < val m"
    by blast
  with mean_within_extrema [OF cv ex] cv ex show ?thesis
    by simp
qed

text \<open>
  \<^bold>\<open>C12\<close> (functional). When nothing is rounded before the last division, that is on a
  non-empty file of at most \<open>2 ^ 53\<close> finite values whose partial sums, mean, distances to
  the mean, squares of the distances and partial sums of the squares are representable,
  \<^verbatim>\<open>dispersion\<close> returns the correctly rounded population variance of the numbers: the
  mean of the squared distances to the mean, divided by the number of values and not by
  one less. It is never negative.
\<close>

theorem dispersion_is_variance:
  assumes "countable_values fs filename xs" "exact_variance (map val xs)"
  shows "\<exists>d. dispersion fs filename = Inr d \<and> is_finite d
           \<and> val d = rnd (variance (map val xs)) \<and> 0 \<le> val d"
  using dispersion_exact [OF assms] by blast

theorem dispersion_is_variance_witness:
  "countable_values fs_five bigfile [Fin 1, Fin 2, Fin 3, Fin 4, Fin 5]
   \<and> exact_variance (map val [Fin 1, Fin 2, Fin 3, Fin 4, Fin 5])
   \<and> (\<exists>d. dispersion fs_five bigfile = Inr d \<and> val d = 2)"
proof -
  have cv: "countable_values fs_five bigfile [Fin 1, Fin 2, Fin 3, Fin 4, Fin 5]"
    by (simp add: countable_values_def read_values_five)
  have ex: "exact_variance (map val [Fin 1, Fin 2, Fin 3, Fin 4, Fin 5])"
    by (simp add: exact_variance_def mean_def power2_eq_square)
  have "variance (map val [Fin 1, Fin 2, Fin 3, Fin 4, Fin 5]) = 2"
    by (simp add: variance_def mean_def power2_eq_square)
  with dispersion_is_variance [OF cv ex] cv ex show ?thesis
    by auto
qed

text \<open>
  \<^bold>\<open>C13\<close> (refinement). In general \<^verbatim>\<open>dispersion\<close> is a function of the result \<open>m\<close> of
  \<^verbatim>\<open>average\<close>: as long as no distance, square or partial sum overflows it returns the
  rounded accumulation of the rounded squares \<open>sq_dev\<close> of the distances to \<open>m\<close>, divided
  by the number of values and rounded, and the result is not negative.
\<close>

theorem dispersion_rounded:
  assumes "countable_values fs filename xs" "average fs filename = Inr m" "is_finite m"
    and "devs_in_range (val m) (map val xs)"
    and "sums_in_range 0 (map (sq_dev (val m)) (map val xs))"
  shows "\<exists>d. dispersion fs filename = Inr d \<and> is_finite d \<and> 0 \<le> val d
           \<and> val d = rnd (fl_sum 0 (map (sq_dev (val m)) (map val xs)) / real (length xs))"
  using assms by (rule dispersion_values)

theorem dispersion_rounded_witness:
  "countable_values fs_tenths bigfile [Fin tenth, Fin tenth, Fin tenth]
   \<and> (\<exists>m d. average fs_tenths bigfile = Inr m \<and> val m = tenth_above
         \<and> dispersion fs_tenths bigfile = Inr d \<and> val d = 1 / 2 ^ 112)"
proof -
  let ?xs = "[Fin tenth, Fin tenth, Fin tenth]"
  from average_tenths obtain m where
    m: "average fs_tenths bigfile = Inr m" "is_finite m" "val m = tenth_above"
    by blast
  have devs: "devs_in_range (val m) (map val ?xs)"
    using devs_tenths by (simp add: m(3))
  have sums: "sums_in_range 0 (map (sq_dev (val m)) (map val ?xs))"
    using squares_tenths(1) by (simp add: m(3))
  from dispersion_rounded [OF countable_values_tenths m(1,2) devs sums] obtain d where
    d: "dispersion fs_tenths bigfile = Inr d"
      "val d = rnd (fl_sum 0 (map (sq_dev (val m)) (map val ?xs)) / real (length ?xs))"
    by blast
  have "fl_sum 0 (map (sq_dev (val m)) (map val ?xs)) / real (length ?xs) = 3 / 2 ^ 112 / 3"
    using squares_tenths(2) by (simp add: m(3))
  with d(2) have "val d = 1 / 2 ^ 112"
    by (simp only: rnd_third_tiny)
  with d(1) m countable_values_tenths show ?thesis
    by blast
qed



text \<open>
  \<^bold>\<open>C18\<close> (error). When the scan fails, because the file cannot be opened or read or a
  token is not a number, each of \<^verbatim>\<open>len\<close>, \<^verbatim>\<open>min_max\<close>, \<^verbatim>\<open>average\<close> and \<^verbatim>\<open>dispersion\<close>
  fails with the same error; none returns a partial result.
\<close>

theorem stat_errors_propagate:
  assumes "read_values fs filename = Inl e"
  shows "len fs filename = Inl e \<and> min_max fs filename = Inl e
           \<and> average fs filename = Inl e \<and> dispersion fs filename = Inl e"
  using stat_errors [OF assms] by simp

theorem stat_errors_propagate_witness:
  "read_values fs_bad bigfile = Inl ParseFloatError
   \<and> len fs_bad bigfile = Inl ParseFloatError \<and> min_max fs_bad bigfile = Inl ParseFloatError
   \<and> average fs_bad bigfile = Inl ParseFloatError
   \<and> dispersion fs_bad bigfile = Inl ParseFloatError"
  using stat_errors_propagate [OF read_values_bad] by (simp add: read_values_bad)


text \<open>
  \<^bold>\<open>C24\<close> (functional). \<^verbatim>\<open>min_max\<close> compares with \<^verbatim>\<open>f64::min\<close> and \<^verbatim>\<open>f64::max\<close>, which
  skip NaN: as soon as one value of the file is not NaN, neither the minimum nor the
  maximum is NaN, although in the order of \<^verbatim>\<open>total_cmp\<close> a negative NaN is below and a
  positive NaN above every number.
\<close>

theorem min_max_ignores_nan:
  assumes "read_values fs filename = Inr xs" "\<exists>x \<in> set xs. \<not> is_nan x"
  shows "\<exists>a b. min_max fs filename = Inr (Some (a, b)) \<and> \<not> is_nan a \<and> \<not> is_nan b"
proof -
  from assms(2) obtain x xs' where xs: "xs = x # xs'"
    by (cases xs) auto
  from fold_min_max_step_Some [of xs' x x] obtain a b where
    ab: "fold min_max_step xs' (Some x, Some x) = (Some a, Some b)"
    by blast
  from assms(2) have "(\<exists>y \<in> set xs'. \<not> is_nan y) \<or> (\<not> is_nan x \<and> \<not> is_nan x)"
    by (auto simp: xs)
  from fold_min_max_step_not_nan [OF this ab] ab assms(1) show ?thesis
    by (simp add: min_max_def for_file_Inr xs min_max_step_def unwrap_or_def zip_option_def)
qed

theorem min_max_ignores_nan_witness:
  "read_values fs_nan bigfile = Inr [NaN False, Fin 2, NaN True, Fin 1]
   \<and> (\<exists>x \<in> set [NaN False, Fin 2, NaN True, Fin 1]. \<not> is_nan x)
   \<and> (\<exists>a b. min_max fs_nan bigfile = Inr (Some (a, b)) \<and> \<not> is_nan a \<and> \<not> is_nan b)
   \<and> Min (set [NaN False, Fin 2, NaN True, Fin 1]) = NaN True"
proof -
  have "Min (set [NaN False, Fin 2, NaN True, Fin 1]) = NaN True"
    by (simp add: min_def less_eq_f64_def)
  with min_max_ignores_nan [OF read_values_nan] show ?thesis
    by (simp add: read_values_nan)
qed


text \<open>
  \<^bold>\<open>C30\<close> (functional). In terms of the bytes of the file: when \<^verbatim>\<open>len\<close> succeeds on a file
  shorter than \<open>2 ^ 64\<close> bytes, its result is the number of blanks in the file, plus one
  when the file does not end with a blank and is not empty.
\<close>

theorem len_counts_tokens:
  assumes "fs filename = Some (readable bs)" "len fs filename = Inr n" "length bs < 2 ^ 64"
  shows "unat n = count_list bs 0x20 + (if bs \<noteq> [] \<and> last bs \<noteq> 0x20 then 1 else 0)"
proof -
  from assms(2) obtain xs where xs: "read_values fs filename = Inr xs"
    by (cases "read_values fs filename") (simp_all add: stat_errors)
  from read_values_length [OF assms(1) xs] have l: "length xs = length (tokens 0x20 bs)"
    by simp
  with length_tokens_le [of "0x20" bs] assms(3) have b: "length xs < 2 ^ 64"
    by simp
  from len_values [OF xs] assms(2) have "n = of_nat (length xs)"
    by simp
  with b have "unat n = length xs"
    by (simp add: unat_of_nat_u64)
  then show ?thesis
    by (simp only: l length_tokens)
qed

theorem len_counts_tokens_witness:
  "fs_five bigfile = Some (readable (bytes_of ''1 2 3 4 5'')) \<and> len fs_five bigfile = Inr 5
   \<and> length (bytes_of ''1 2 3 4 5'') < 2 ^ 64
   \<and> unat (5 :: usize) = count_list (bytes_of ''1 2 3 4 5'') 0x20 + 1"
proof -
  have f: "fs_five bigfile = Some (readable (bytes_of ''1 2 3 4 5''))"
    by (simp add: fs_five_def one_file_def)
  have l: "len fs_five bigfile = Inr 5"
    by (simp add: len_values [OF read_values_five])
  have b: "length (bytes_of ''1 2 3 4 5'') < 2 ^ 64"
    by (simp add: bytes_of_def)
  from len_counts_tokens [OF f l b] f l b show ?thesis
    by (simp add: bytes_of_def)
qed


text \<open>The values that the statistics return are values of the format.\<close>

lemma statistics_wf:
  assumes "read_values fs filename = Inr xs"
  shows "(\<forall>a b. min_max fs filename = Inr (Some (a, b)) \<longrightarrow> wf64 a \<and> wf64 b)
         \<and> (\<forall>m. average fs filename = Inr m \<longrightarrow> wf64 m)
         \<and> (\<forall>d. dispersion fs filename = Inr d \<longrightarrow> wf64 d)"
proof (intro conjI allI impI)
  fix a b
  assume "min_max fs filename = Inr (Some (a, b))"
  from min_max_wf [OF assms this] show "wf64 a" "wf64 b"
    by simp_all
next
  fix m
  assume "average fs filename = Inr m"
  then show "wf64 m"
    by (auto simp: average_def rbind_eq_Inr_iff)
next
  fix d
  assume "dispersion fs filename = Inr d"
  then show "wf64 d"
    by (auto simp: dispersion_def rbind_eq_Inr_iff)
qed

end
