(* ===== verification/Order_Statistics.thy ===== *)
theory Order_Statistics
  imports FS_Prelude
begin

text \<open>
  Order statistics of a list over a linear order, as far as the bisection search for
  the median needs them: the lower median is the element at index \<open>(n - 1) div 2\<close> of
  the sorted list, and the numbers of elements below and above a threshold tell on
  which side of the threshold it lies.
\<close>

definition lower_median :: "'a::linorder list \<Rightarrow> 'a" where
  "lower_median xs = sort xs ! ((length xs - 1) div 2)"

lemma length_filter_sort: "length (filter P (sort xs)) = length (filter P xs)"
proof -
  have "mset (filter P (sort xs)) = mset (filter P xs)"
    by simp
  then show ?thesis
    by (rule mset_eq_length)
qed

lemma sorted_filter_less_nth:
  assumes "sorted ys" "i < length ys"
  shows "length (filter (\<lambda>y. y < ys ! i) ys) \<le> i"
proof -
  have "\<not> y < ys ! i" if "y \<in> set (drop i ys)" for y
  proof -
    from that obtain j where "j < length ys - i" "y = ys ! (i + j)"
      by (auto simp: in_set_conv_nth)
    with assms(1) have "ys ! i \<le> y"
      by (auto intro: sorted_nth_mono)
    then show ?thesis by simp
  qed
  then have "filter (\<lambda>y. y < ys ! i) (drop i ys) = []"
    by (auto simp: filter_empty_conv)
  then have "filter (\<lambda>y. y < ys ! i) ys = filter (\<lambda>y. y < ys ! i) (take i ys)"
    by (metis append_Nil2 append_take_drop_id filter_append)
  then have "length (filter (\<lambda>y. y < ys ! i) ys) \<le> length (take i ys)"
    by (simp only: length_filter_le)
  then show ?thesis by simp
qed

lemma sorted_filter_greater_nth:
  assumes "sorted ys" "i < length ys"
  shows "length (filter (\<lambda>y. ys ! i < y) ys) \<le> length ys - Suc i"
proof -
  have "\<not> ys ! i < y" if "y \<in> set (take (Suc i) ys)" for y
  proof -
    from that obtain j where "j \<le> i" "y = ys ! j"
      by (auto simp: in_set_conv_nth less_Suc_eq_le)
    with assms have "y \<le> ys ! i"
      by (auto intro: sorted_nth_mono)
    then show ?thesis by simp
  qed
  then have "filter (\<lambda>y. ys ! i < y) (take (Suc i) ys) = []"
    by (auto simp: filter_empty_conv)
  then have "filter (\<lambda>y. ys ! i < y) ys = filter (\<lambda>y. ys ! i < y) (drop (Suc i) ys)"
    by (metis append_Nil append_take_drop_id filter_append)
  then have "length (filter (\<lambda>y. ys ! i < y) ys) \<le> length (drop (Suc i) ys)"
    by (simp only: length_filter_le)
  then show ?thesis by simp
qed

lemma lower_median_mem: "xs \<noteq> [] \<Longrightarrow> lower_median xs \<in> set xs"
proof -
  assume "xs \<noteq> []"
  then have "(length xs - 1) div 2 < length (sort xs)"
    by (cases xs) simp_all
  then have "sort xs ! ((length xs - 1) div 2) \<in> set (sort xs)"
    by (rule nth_mem)
  then show ?thesis by (simp add: lower_median_def)
qed

lemma count_less_lower_median:
  assumes "xs \<noteq> []"
  shows "length (filter (\<lambda>x. x < lower_median xs) xs) \<le> (length xs - 1) div 2"
proof -
  from assms have "(length xs - 1) div 2 < length (sort xs)"
    by (cases xs) simp_all
  from sorted_filter_less_nth [OF sorted_sort this] show ?thesis
    by (simp add: lower_median_def length_filter_sort)
qed

lemma count_greater_lower_median:
  assumes "xs \<noteq> []"
  shows "length (filter (\<lambda>x. lower_median xs < x) xs) \<le> length xs div 2"
proof -
  from assms have k: "(length xs - 1) div 2 < length (sort xs)"
    by (cases xs) simp_all
  from sorted_filter_greater_nth [OF sorted_sort k]
  have "length (filter (\<lambda>x. lower_median xs < x) xs) \<le> length xs - Suc ((length xs - 1) div 2)"
    by (simp add: lower_median_def length_filter_sort)
  also have "\<dots> \<le> length xs div 2"
    by linarith
  finally show ?thesis .
qed

section \<open>Deciding the side of the median by counting\<close>

text \<open>
  The decision of the search on the numbers of elements below, equal to and above a
  threshold, on unbounded integers.
\<close>

definition balance :: "'a::linorder list \<Rightarrow> 'a \<Rightarrow> ordering" where
  "balance xs v =
     (let l = int (length (filter (\<lambda>x. x < v) xs));
          e = int (length (filter (\<lambda>x. x = v) xs));
          g = int (length (filter (\<lambda>x. v < x) xs))
      in if \<bar>g - l\<bar> < e + 1 then Equal else if g < l then Less else Greater)"

lemma balance_Less:
  assumes "xs \<noteq> []" "balance xs v = Less"
  shows "lower_median xs < v"
proof (rule ccontr)
  assume "\<not> lower_median xs < v"
  then have "length (filter (\<lambda>x. x < v) xs) \<le> length (filter (\<lambda>x. x < lower_median xs) xs)"
    by (intro length_filter_le_mono) auto
  with count_less_lower_median [OF assms(1)]
  have "length (filter (\<lambda>x. x < v) xs) \<le> (length xs - 1) div 2"
    by simp
  moreover from assms(2)
  have "length (filter (\<lambda>x. v < x) xs) + length (filter (\<lambda>x. x = v) xs)
          < length (filter (\<lambda>x. x < v) xs)"
    by (simp add: balance_def Let_def split: if_splits)
  ultimately show False
    using length_filter_three_way [of v xs] by linarith
qed

lemma balance_Greater:
  assumes "xs \<noteq> []" "balance xs v = Greater"
  shows "v < lower_median xs"
proof (rule ccontr)
  assume "\<not> v < lower_median xs"
  then have "length (filter (\<lambda>x. v < x) xs) \<le> length (filter (\<lambda>x. lower_median xs < x) xs)"
    by (intro length_filter_le_mono) auto
  with count_greater_lower_median [OF assms(1)]
  have "length (filter (\<lambda>x. v < x) xs) \<le> length xs div 2"
    by simp
  moreover from assms(2)
  have "length (filter (\<lambda>x. x < v) xs) + length (filter (\<lambda>x. x = v) xs)
          < length (filter (\<lambda>x. v < x) xs)"
    by (simp add: balance_def Let_def split: if_splits)
  ultimately show False
    using length_filter_three_way [of v xs] by linarith
qed

lemma balance_Equal:
  assumes "xs \<noteq> []" "balance xs v = Equal"
  shows "lower_median xs \<le> v"
proof (rule ccontr)
  assume "\<not> lower_median xs \<le> v"
  then have "length (filter (\<lambda>x. \<not> x < lower_median xs) xs) \<le> length (filter (\<lambda>x. v < x) xs)"
    by (intro length_filter_le_mono) auto
  moreover have "length (filter (\<lambda>x. \<not> x < lower_median xs) xs)
      = length xs - length (filter (\<lambda>x. x < lower_median xs) xs)"
    using sum_length_filter_compl [of "\<lambda>x. x < lower_median xs" xs] by simp
  moreover note count_less_lower_median [OF assms(1)]
  moreover from assms(2)
  have "length (filter (\<lambda>x. v < x) xs)
          \<le> length (filter (\<lambda>x. x < v) xs) + length (filter (\<lambda>x. x = v) xs)"
    by (simp add: balance_def Let_def split: if_splits)
  moreover from assms(1) have "0 < length xs"
    by simp
  ultimately show False
    using length_filter_three_way [of v xs] by linarith
qed

end
