(* ===== verification/Median_Search.thy ===== *)
theory Median_Search
  imports Stat_Library Order_Statistics
begin

text \<open>
  The median of \<^verbatim>\<open>file_stat\<close>: \<^verbatim>\<open>is_median\<close> scans the file once and counts the values
  below, equal to and above a threshold in the order of \<^verbatim>\<open>total_cmp\<close>; \<^verbatim>\<open>find_median\<close>
  halves an interval according to its verdict until the interval is at most \<open>0.001\<close>
  wide; \<^verbatim>\<open>median\<close> starts the search on the interval from the minimum to the maximum.

  \<^verbatim>\<open>find_median\<close> calls itself with no bound on the depth, so it is a partial function
  into \<open>option\<close>: \<open>None\<close> stands for a search that does not return. The midpoint and the
  width of the interval are computed in binary64. The lemmas show that a search that
  returns on finite values returns a value within the tolerance below the lower median;
  that the search returns when the values are at most \<open>2 ^ 40\<close> in magnitude, where
  adjacent doubles are closer than the tolerance; and that it does not return when an
  end of the interval is infinite or NaN, when the sum of the ends overflows, or when
  the midpoint is rounded to an end that the verdict keeps.
\<close>

section \<open>Definitions\<close>

definition is_median_step :: "f64 \<Rightarrow> f64 \<Rightarrow> i64 \<times> i64 \<times> i64 \<Rightarrow> i64 \<times> i64 \<times> i64" where
  "is_median_step v x acc =
     (case acc of (lt, eq, gt) \<Rightarrow>
        (case total_cmp x v of
           Less \<Rightarrow> (lt + 1, eq, gt)
         | Equal \<Rightarrow> (lt, eq + 1, gt)
         | Greater \<Rightarrow> (lt, eq, gt + 1)))"

definition verdict :: "i64 \<times> i64 \<times> i64 \<Rightarrow> ordering" where
  "verdict acc =
     (case acc of (lt, eq, gt) \<Rightarrow>
        if abs_i64 (gt - lt) <s eq + 1 then Equal
        else if gt <s lt then Less
        else Greater)"

definition is_median :: "filesystem \<Rightarrow> string \<Rightarrow> f64 \<Rightarrow> ordering result" where
  "is_median fs filename v =
     rbind (for_file fs filename (is_median_step v) (0, 0, 0)) (\<lambda>acc. Inr (verdict acc))"

text \<open>The literal \<^verbatim>\<open>0.001\<close> is the double nearest to one thousandth.\<close>

partial_function (option) find_median ::
    "filesystem \<Rightarrow> string \<Rightarrow> f64 \<Rightarrow> f64 \<Rightarrow> f64 result option" where
  "find_median fs filename left right =
     (if fle (fabs (fsub left right)) (round64 False (1 / 1000)) then Some (Inr left)
      else
        let mid = fdiv (fadd right left) (Fin 2)
        in case is_median fs filename mid of
             Inl e \<Rightarrow> Some (Inl e)
           | Inr Less \<Rightarrow> find_median fs filename left mid
           | Inr Equal \<Rightarrow> find_median fs filename left mid
           | Inr Greater \<Rightarrow> find_median fs filename mid right)"

definition median :: "filesystem \<Rightarrow> string \<Rightarrow> f64 result option" where
  "median fs filename =
     (case min_max fs filename of
        Inl e \<Rightarrow> Some (Inl e)
      | Inr None \<Rightarrow> Some (Inl (Panic ''median requires 1+ value''))
      | Inr (Some (lo, hi)) \<Rightarrow> find_median fs filename lo hi)"

text \<open>
  The search with a bound on the number of scans: \<open>find_median_bounded n\<close> is the result
  of \<^verbatim>\<open>find_median\<close> when the search calls \<^verbatim>\<open>is_median\<close> at most \<open>n\<close> times, and \<open>None\<close> when it
  needs more. It is a measure of the cost of the search, not part of the program.
\<close>

fun find_median_bounded ::
    "nat \<Rightarrow> filesystem \<Rightarrow> string \<Rightarrow> f64 \<Rightarrow> f64 \<Rightarrow> f64 result option" where
  "find_median_bounded 0 fs filename left right =
     (if fle (fabs (fsub left right)) (round64 False (1 / 1000)) then Some (Inr left) else None)"
| "find_median_bounded (Suc n) fs filename left right =
     (if fle (fabs (fsub left right)) (round64 False (1 / 1000)) then Some (Inr left)
      else
        let mid = fdiv (fadd right left) (Fin 2)
        in case is_median fs filename mid of
             Inl e \<Rightarrow> Some (Inl e)
           | Inr Less \<Rightarrow> find_median_bounded n fs filename left mid
           | Inr Equal \<Rightarrow> find_median_bounded n fs filename left mid
           | Inr Greater \<Rightarrow> find_median_bounded n fs filename mid right)"

text \<open>
  The tolerance as a real number, the width that the test of the search guarantees,
  and the error of one midpoint on values of magnitude \<open>2 ^ 40\<close> at most.
\<close>

definition tol :: real where
  "tol = 1152921504606847 / 2 ^ 60"

definition tol_width :: real where
  "tol_width = 1 / 1000 + 1 / 2 ^ 62"

definition mid_error :: real where
  "mid_error = unit_roundoff * 2 ^ 40 + least_subnormal / 2"

section \<open>Counting in one scan\<close>

lemma fold_is_median_step:
  "fold (is_median_step v) xs (a, b, c) =
     (a + of_nat (length (filter (\<lambda>x. x < v) xs)),
      b + of_nat (length (filter (\<lambda>x. x = v) xs)),
      c + of_nat (length (filter (\<lambda>x. v < x) xs)))"
  by (induction xs arbitrary: a b c)
    (auto simp: is_median_step_def total_cmp_cases algebra_simps)

lemma verdict_counts:
  assumes "l + e + g + 1 < (2 :: nat) ^ 63"
  shows "verdict (of_nat l, of_nat e, of_nat g) =
     (if \<bar>int g - int l\<bar> < int e + 1 then Equal else if int g < int l then Less else Greater)"
proof -
  have d: "sint (of_nat g - of_nat l :: i64) = int g - int l"
    using assms by (intro sint_of_nat_diff_i64) simp_all
  then have a: "sint (abs_i64 (of_nat g - of_nat l)) = \<bar>int g - int l\<bar>"
    using assms by (subst sint_abs_i64) simp_all
  have e: "sint (of_nat e + 1 :: i64) = int e + 1"
    using assms by (intro sint_of_nat_succ_i64) simp
  have gl: "sint (of_nat g :: i64) = int g" "sint (of_nat l :: i64) = int l"
    using assms by (simp_all add: sint_of_nat_i64)
  show ?thesis
    by (simp add: verdict_def word_sless_alt a e gl)
qed

lemma is_median_values:
  assumes "read_values fs filename = Inr xs" "length xs + 1 < 2 ^ 63"
  shows "is_median fs filename v = Inr (balance xs v)"
proof -
  have "length (filter (\<lambda>x. x < v) xs) + length (filter (\<lambda>x. x = v) xs)
          + length (filter (\<lambda>x. v < x) xs) + 1 < 2 ^ 63"
    using assms(2) by (simp add: length_filter_three_way)
  from verdict_counts [OF this] assms(1) show ?thesis
    by (simp add: is_median_def for_file_Inr fold_is_median_step balance_def)
qed

lemma is_median_error: "read_values fs filename = Inl e \<Longrightarrow> is_median fs filename v = Inl e"
  by (simp add: is_median_def for_file_Inl)

section \<open>The tolerance\<close>

lemma rnd_milli: "rnd (1 / 1000) = tol"
  using rnd_scaled_down [of "2 ^ 62 / 1000" 62] by (simp add: rhe_def Let_def tol_def)

lemma tol_bounds: "1 / 1000 \<le> tol" "tol \<le> 1 / 512" "0 < tol"
  by (simp_all add: tol_def)

lemma tol_in_range: "tol < limit"
  using small_in_range [of tol] tol_bounds by simp

lemma rep64_tol [simp]: "rep64 tol"
  using rep64_dyadic [of 1152921504606847 60] by (simp add: tol_def)

lemma tolerance_literal: "round64 False (1 / 1000) = Fin tol"
  using tol_bounds(3) by (intro round64_eval rnd_milli) simp_all

lemma tol_width: "tol \<le> (1 - unit_roundoff) * tol_width"
  by (simp add: tol_def tol_width_def unit_roundoff_def)

lemma mid_error_small: "7 / 10000 + 2 * mid_error \<le> tol"
proof -
  have "least_subnormal \<le> 1 / 2 ^ 20"
    by (rule least_subnormal_le) simp
  moreover have "7 / 10000 + 2 * (unit_roundoff * 2 ^ 40) + 1 / 2 ^ 20 \<le> (1 / 1000 :: real)"
    by (simp add: unit_roundoff_def)
  ultimately show ?thesis
    using tol_bounds(1) by (simp add: mid_error_def)
qed

section \<open>One step of the search\<close>

abbreviation narrow :: "f64 \<Rightarrow> f64 \<Rightarrow> bool" where
  "narrow l r \<equiv> fle (fabs (fsub l r)) (round64 False (1 / 1000))"

abbreviation midpoint :: "f64 \<Rightarrow> f64 \<Rightarrow> f64" where
  "midpoint l r \<equiv> fdiv (fadd r l) (Fin 2)"

lemma find_median_done: "narrow l r \<Longrightarrow> find_median fs filename l r = Some (Inr l)"
  by (subst find_median.simps) simp

lemma find_median_fail:
  "\<not> narrow l r \<Longrightarrow> is_median fs filename (midpoint l r) = Inl e
     \<Longrightarrow> find_median fs filename l r = Some (Inl e)"
  by (subst find_median.simps) simp

lemma find_median_left:
  "\<not> narrow l r \<Longrightarrow> is_median fs filename (midpoint l r) = Inr c \<Longrightarrow> c \<noteq> Greater
     \<Longrightarrow> find_median fs filename l r = find_median fs filename l (midpoint l r)"
  by (subst find_median.simps) (cases c; simp)

lemma find_median_right:
  "\<not> narrow l r \<Longrightarrow> is_median fs filename (midpoint l r) = Inr Greater
     \<Longrightarrow> find_median fs filename l r = find_median fs filename (midpoint l r) r"
  by (subst find_median.simps) simp

text \<open>The test and the midpoint on finite values, in real numbers.\<close>

lemma narrow_iff:
  "is_finite l \<Longrightarrow> is_finite r \<Longrightarrow> narrow l r \<longleftrightarrow> \<bar>rnd (val l - val r)\<bar> \<le> tol"
  by (simp add: tolerance_literal narrow_finite tol_in_range)

lemma narrow_finite_ends: "narrow l r \<Longrightarrow> is_finite l \<and> is_finite r"
  unfolding tolerance_literal by (rule fle_fabs_fsub_finite)

lemma narrow_close:
  assumes "is_finite l" "is_finite r" "\<bar>val l - val r\<bar> \<le> tol"
  shows "narrow l r"
proof -
  from assms(3) have "rnd \<bar>val l - val r\<bar> \<le> rnd tol"
    by (rule rnd_mono)
  with assms(1,2) show ?thesis
    by (simp add: narrow_iff rnd_abs)
qed

lemma narrow_width:
  assumes "is_finite l" "is_finite r" "wf64 l" "wf64 r" "narrow l r"
  shows "\<bar>val l - val r\<bar> \<le> tol_width"
proof -
  let ?w = "val l - val r"
  from assms(3,4) have "rnd (val l) = val l" "rnd (val r) = val r"
    by (simp_all add: wf64_val)
  from rnd_diff_error [OF this] assms(1,2,5) have "\<bar>?w\<bar> \<le> tol + unit_roundoff * \<bar>?w\<bar>"
    by (simp add: narrow_iff)
  then have "(1 - unit_roundoff) * \<bar>?w\<bar> \<le> (1 - unit_roundoff) * tol_width"
    using tol_width by (simp add: algebra_simps)
  moreover have "0 < 1 - unit_roundoff"
    by (simp add: unit_roundoff_def)
  ultimately show ?thesis
    by (simp only: mult_le_cancel_left_pos)
qed

lemma midpoint_wf [simp]: "wf64 (midpoint l r)"
  by simp

lemma midpoint_in_range:
  assumes "\<bar>val l\<bar> \<le> 2 ^ 1022" "\<bar>val r\<bar> \<le> 2 ^ 1022"
  shows "\<bar>rnd (val r + val l)\<bar> < limit"
proof (rule rnd_in_range)
  from assms show "\<bar>val r + val l\<bar> \<le> 2 ^ 1023"
    by simp
qed

lemma midpoint_inside:
  assumes "is_finite l" "is_finite r" "wf64 l" "wf64 r" "is_finite (midpoint l r)"
    and "val l \<le> val r"
  shows "val l \<le> val (midpoint l r)" "val (midpoint l r) \<le> val r"
proof -
  from assms(5) have "\<bar>rnd (val r + val l)\<bar> < limit"
    by (simp only: midpoint_finite_iff)
  then have "val (midpoint l r) = rnd (rnd (val r + val l) / 2)"
    by (rule midpoint_val [OF assms(1,2)])
  moreover from assms(3,4) have "rnd (val l) = val l" "rnd (val r) = val r"
    by (simp_all add: wf64_val)
  ultimately show "val l \<le> val (midpoint l r)" "val (midpoint l r) \<le> val r"
    using midpoint_between [OF _ _ assms(6)] by simp_all
qed

section \<open>The search on finite values\<close>

text \<open>
  The files on which the search is studied: readable, not empty, all values finite,
  and few enough values for the signed counters.
\<close>

definition finite_values :: "filesystem \<Rightarrow> string \<Rightarrow> f64 list \<Rightarrow> bool" where
  "finite_values fs filename xs \<longleftrightarrow>
     read_values fs filename = Inr xs \<and> list_all is_finite xs \<and> xs \<noteq> []
     \<and> length xs + 1 < 2 ^ 63"

lemma finite_values_lower_median:
  "finite_values fs filename xs \<Longrightarrow> is_finite (lower_median xs)"
  using lower_median_mem [of xs] by (auto simp: finite_values_def list_all_iff)

lemma finite_values_is_median:
  "finite_values fs filename xs \<Longrightarrow> is_median fs filename v = Inr (balance xs v)"
  by (simp add: finite_values_def is_median_values)

lemma balance_left:
  assumes "finite_values fs filename xs" "is_finite v" "balance xs v \<noteq> Greater"
  shows "val (lower_median xs) \<le> val v"
proof -
  from assms(1) have ne: "xs \<noteq> []"
    by (simp add: finite_values_def)
  from assms(3) have "lower_median xs \<le> v"
    using balance_Less [OF ne, of v] balance_Equal [OF ne, of v]
    by (cases "balance xs v") simp_all
  with assms(1,2) show ?thesis
    by (intro less_eq_f64_val) (simp_all add: finite_values_lower_median)
qed

lemma balance_right:
  assumes "finite_values fs filename xs" "is_finite v" "balance xs v = Greater"
  shows "val v \<le> val (lower_median xs)"
proof -
  from assms(1) have ne: "xs \<noteq> []"
    by (simp add: finite_values_def)
  from balance_Greater [OF ne assms(3)] assms(1,2) show ?thesis
    by (intro less_f64_val) (simp_all add: finite_values_lower_median)
qed

lemma find_median_step:
  assumes "finite_values fs filename xs"
  shows "find_median fs filename l r =
     (if narrow l r then Some (Inr l)
      else if balance xs (midpoint l r) = Greater then find_median fs filename (midpoint l r) r
      else find_median fs filename l (midpoint l r))"
  using find_median_left [of l r fs filename "balance xs (midpoint l r)"]
    find_median_right [of l r fs filename]
  by (simp add: find_median_done finite_values_is_median [OF assms])

section \<open>A search that returns is right\<close>

text \<open>
  What a result of the search on the interval from \<open>l\<close> to \<open>r\<close> has to satisfy when the
  number \<open>L\<close> is in the interval: it is a finite value of the format in the interval, not
  above \<open>L\<close> and at most the guaranteed width below it.
\<close>

definition approximates :: "real \<Rightarrow> f64 \<Rightarrow> f64 \<Rightarrow> f64 result \<Rightarrow> bool" where
  "approximates L l r res \<longleftrightarrow>
     (\<exists>m. res = Inr m \<and> is_finite m \<and> wf64 m \<and> val l \<le> val m \<and> val m \<le> val r
        \<and> val m \<le> L \<and> L \<le> val m + tol_width)"

definition sound :: "real \<Rightarrow> f64 \<Rightarrow> f64 \<Rightarrow> f64 result \<Rightarrow> bool" where
  "sound L l r res \<longleftrightarrow>
     is_finite l \<and> is_finite r
     \<and> (wf64 l \<and> wf64 r \<and> val l \<le> L \<and> L \<le> val r \<longrightarrow> approximates L l r res)"

lemma sound_narrow:
  assumes "narrow l r"
  shows "sound L l r (Inr l)"
proof -
  from narrow_finite_ends [OF assms] have fin: "is_finite l" "is_finite r"
    by simp_all
  have "approximates L l r (Inr l)" if "wf64 l" "wf64 r" "val l \<le> L" "L \<le> val r"
  proof -
    from narrow_width [OF fin that(1,2) assms] that(3,4) have "L \<le> val l + tol_width"
      by linarith
    with that fin show ?thesis
      by (simp add: approximates_def)
  qed
  with fin show ?thesis
    by (simp add: sound_def)
qed

lemma sound_right:
  assumes "finite_values fs filename xs" "balance xs (midpoint l r) = Greater"
    and "sound (val (lower_median xs)) (midpoint l r) r res"
  shows "sound (val (lower_median xs)) l r res"
proof -
  let ?L = "val (lower_median xs)"
  from assms(3) have mid: "is_finite (midpoint l r)" and r: "is_finite r"
    by (simp_all add: sound_def)
  then have l: "is_finite l"
    by (simp add: midpoint_finite_iff)
  have "approximates ?L l r res" if "wf64 l" "wf64 r" "val l \<le> ?L" "?L \<le> val r"
  proof -
    from that have "val l \<le> val r"
      by simp
    from midpoint_inside(1) [OF l r that(1,2) mid this] have "val l \<le> val (midpoint l r)" .
    moreover from balance_right [OF assms(1) mid assms(2)] assms(3) that
    have "approximates ?L (midpoint l r) r res"
      by (simp add: sound_def)
    ultimately show ?thesis
      by (auto simp: approximates_def)
  qed
  with l r show ?thesis
    by (simp add: sound_def)
qed

lemma sound_left:
  assumes "finite_values fs filename xs" "balance xs (midpoint l r) \<noteq> Greater"
    and "sound (val (lower_median xs)) l (midpoint l r) res"
  shows "sound (val (lower_median xs)) l r res"
proof -
  let ?L = "val (lower_median xs)"
  from assms(3) have mid: "is_finite (midpoint l r)" and l: "is_finite l"
    by (simp_all add: sound_def)
  then have r: "is_finite r"
    by (simp add: midpoint_finite_iff)
  have "approximates ?L l r res" if "wf64 l" "wf64 r" "val l \<le> ?L" "?L \<le> val r"
  proof -
    from that have "val l \<le> val r"
      by simp
    from midpoint_inside(2) [OF l r that(1,2) mid this] have "val (midpoint l r) \<le> val r" .
    moreover from balance_left [OF assms(1) mid assms(2)] assms(3) that
    have "approximates ?L l (midpoint l r) res"
      by (simp add: sound_def)
    ultimately show ?thesis
      by (auto simp: approximates_def)
  qed
  with l r show ?thesis
    by (simp add: sound_def)
qed

lemma find_median_sound:
  assumes "find_median fs filename l r = Some res" "finite_values fs filename xs"
  shows "sound (val (lower_median xs)) l r res"
proof (rule find_median.raw_induct
    [where P = "\<lambda>fs fn l r res. finite_values fs fn xs \<longrightarrow> sound (val (lower_median xs)) l r res",
      rule_format, OF _ assms])
  fix f fs fn l r and res :: "f64 result"
  assume IH: "\<And>fs fn l r res. f fs fn l r = Some res \<Longrightarrow> finite_values fs fn xs
      \<Longrightarrow> sound (val (lower_median xs)) l r res"
    and fv: "finite_values fs fn xs"
    and eq: "(if narrow l r then Some (Inr l)
       else let mid = midpoint l r
            in case is_median fs fn mid of
                 Inl e \<Rightarrow> Some (Inl e)
               | Inr Less \<Rightarrow> f fs fn l mid
               | Inr Equal \<Rightarrow> f fs fn l mid
               | Inr Greater \<Rightarrow> f fs fn mid r) = Some res"
  show "sound (val (lower_median xs)) l r res"
  proof (cases "narrow l r")
    case True
    with eq sound_narrow [OF True] show ?thesis
      by auto
  next
    case False
    show ?thesis
    proof (cases "balance xs (midpoint l r) = Greater")
      case True
      with eq False have "f fs fn (midpoint l r) r = Some res"
        by (simp add: finite_values_is_median [OF fv])
      from sound_right [OF fv True IH [OF this fv]] show ?thesis .
    next
      case other: False
      with eq False have "f fs fn l (midpoint l r) = Some res"
        by (cases "balance xs (midpoint l r)") (simp_all add: finite_values_is_median [OF fv])
      from sound_left [OF fv other IH [OF this fv]] show ?thesis .
    qed
  qed
qed

section \<open>Termination on values of moderate magnitude\<close>

lemma midpoint_step:
  assumes "is_finite l" "is_finite r" "wf64 l" "wf64 r" "val l \<le> val r"
    and "\<bar>val l\<bar> \<le> 2 ^ 40" "\<bar>val r\<bar> \<le> 2 ^ 40"
  shows "is_finite (midpoint l r)" "val l \<le> val (midpoint l r)" "val (midpoint l r) \<le> val r"
    "\<bar>val (midpoint l r)\<bar> \<le> 2 ^ 40"
    "val (midpoint l r) - val l \<le> (val r - val l) / 2 + mid_error"
    "val r - val (midpoint l r) \<le> (val r - val l) / 2 + mid_error"
proof -
  have "(2 :: real) ^ 40 \<le> 2 ^ 1022"
    by (rule power_increasing) simp_all
  with assms(6,7) have "\<bar>rnd (val r + val l)\<bar> < limit"
    by (intro midpoint_in_range) simp_all
  with assms(1,2) have mid: "is_finite (midpoint l r)"
    and v: "val (midpoint l r) = rnd (rnd (val r + val l) / 2)"
    by (simp_all only: midpoint_finite_iff midpoint_val simp_thms)
  show "is_finite (midpoint l r)"
    by (rule mid)
  from midpoint_inside [OF assms(1-4) mid assms(5)]
  show inside: "val l \<le> val (midpoint l r)" "val (midpoint l r) \<le> val r" .
  with assms(6,7) show "\<bar>val (midpoint l r)\<bar> \<le> 2 ^ 40"
    by linarith
  from assms(3,4) have "rep64 (val l)" "rep64 (val r)"
    by (simp_all add: wf64_val)
  from midpoint_width [OF this assms(6,7)]
  show "val (midpoint l r) - val l \<le> (val r - val l) / 2 + mid_error"
    "val r - val (midpoint l r) \<le> (val r - val l) / 2 + mid_error"
    by (simp_all only: v mid_error_def)
qed

lemma halve_width:
  fixes w a e d :: real
  assumes "w \<le> 2 * a + 2 * e" "d \<le> w / 2 + e"
  shows "d \<le> a + 2 * e"
  using assms by linarith

lemma find_median_bounded_returns:
  assumes "is_finite l" "is_finite r" "wf64 l" "wf64 r" "val l \<le> val r"
    and "\<bar>val l\<bar> \<le> 2 ^ 40" "\<bar>val r\<bar> \<le> 2 ^ 40"
    and "val r - val l \<le> 2 ^ n * (7 / 10000) + 2 * mid_error"
  shows "\<exists>res. find_median_bounded n fs filename l r = Some res"
  using assms
proof (induction n arbitrary: l r)
  case 0
  with mid_error_small have "\<bar>val l - val r\<bar> \<le> tol"
    by simp
  with 0 show ?case
    by (simp add: narrow_close)
next
  case (Suc n)
  note mid = midpoint_step [OF Suc.prems(1-7)]
  from Suc.prems(8) have "val r - val l \<le> 2 * (2 ^ n * (7 / 10000)) + 2 * mid_error"
    by (simp only: power_Suc mult.assoc)
  note w = halve_width [OF this mid(5)] halve_width [OF this mid(6)]
  from Suc.IH [OF Suc.prems(1) mid(1) Suc.prems(3) midpoint_wf mid(2) Suc.prems(6) mid(4) w(1)]
    Suc.IH [OF mid(1) Suc.prems(2) midpoint_wf Suc.prems(4) mid(3,4) Suc.prems(7) w(2)]
  show ?case
    by (auto simp: Let_def split: sum.splits ordering.splits)
qed

section \<open>The number of scans\<close>

lemma find_median_bounded_sound:
  "find_median_bounded n fs filename l r = Some res \<Longrightarrow> find_median fs filename l r = Some res"
proof (induction n arbitrary: l r)
  case 0
  then show ?case
    by (simp add: find_median_done split: if_splits)
next
  case (Suc n)
  show ?case
  proof (cases "narrow l r")
    case True
    with Suc.prems show ?thesis
      by (simp add: find_median_done)
  next
    case False
    show ?thesis
    proof (cases "is_median fs filename (midpoint l r)")
      case (Inl e)
      with False Suc.prems show ?thesis
        by (simp add: find_median_fail)
    next
      case (Inr c)
      with False Suc.prems Suc.IH [of l "midpoint l r"] Suc.IH [of "midpoint l r" r]
      show ?thesis
        by (cases c) (simp_all add: find_median_left find_median_right)
    qed
  qed
qed

section \<open>No return\<close>

text \<open>
  A search that returns on a file that can be read has finite ends, and a finite midpoint
  unless it returns at once: an end that is not finite, or a midpoint that overflows,
  stays in every later interval.
\<close>

lemma is_median_ok: "is_ok (read_values fs filename) \<Longrightarrow> is_ok (is_median fs filename v)"
  by (auto simp: is_ok_iff is_median_def for_file_Inr)

lemma find_median_returns_finite:
  assumes "find_median fs filename l r = Some y" "is_ok (read_values fs filename)"
  shows "is_finite l \<and> is_finite r \<and> (narrow l r \<or> is_finite (midpoint l r))"
proof (rule find_median.raw_induct
    [where P = "\<lambda>fs fn l r y. is_ok (read_values fs fn)
        \<longrightarrow> is_finite l \<and> is_finite r \<and> (narrow l r \<or> is_finite (midpoint l r))",
      rule_format, OF _ assms])
  fix f fs fn l r and y :: "f64 result"
  assume IH: "\<And>fs fn l r y. f fs fn l r = Some y \<Longrightarrow> is_ok (read_values fs fn)
      \<Longrightarrow> is_finite l \<and> is_finite r \<and> (narrow l r \<or> is_finite (midpoint l r))"
    and ok: "is_ok (read_values fs fn)"
    and eq: "(if narrow l r then Some (Inr l)
       else let mid = midpoint l r
            in case is_median fs fn mid of
                 Inl e \<Rightarrow> Some (Inl e)
               | Inr Less \<Rightarrow> f fs fn l mid
               | Inr Equal \<Rightarrow> f fs fn l mid
               | Inr Greater \<Rightarrow> f fs fn mid r) = Some y"
  show "is_finite l \<and> is_finite r \<and> (narrow l r \<or> is_finite (midpoint l r))"
  proof (cases "narrow l r")
    case True
    with narrow_finite_ends [OF True] show ?thesis
      by simp
  next
    case False
    from is_median_ok [OF ok] obtain c where "is_median fs fn (midpoint l r) = Inr c"
      by (auto simp: is_ok_iff)
    with eq False have "f fs fn l (midpoint l r) = Some y \<or> f fs fn (midpoint l r) r = Some y"
      by (cases c) simp_all
    with IH [OF _ ok] have "is_finite (midpoint l r)"
      by blast
    then show ?thesis
      by (simp add: midpoint_finite_iff)
  qed
qed

lemma find_median_not_finite:
  assumes "is_ok (read_values fs filename)"
    and "\<not> is_finite l \<or> \<not> is_finite r \<or> (\<not> narrow l r \<and> \<not> is_finite (midpoint l r))"
  shows "find_median fs filename l r = None"
  using assms find_median_returns_finite [of fs filename l r]
  by (cases "find_median fs filename l r") auto

lemma median_infinity:
  assumes "read_values fs filename = Inr xs" "Inf s \<in> set xs"
  shows "median fs filename = None"
proof -
  from min_max_infinity [OF assms] obtain a b where
    ab: "min_max fs filename = Inr (Some (a, b))" "\<not> (is_finite a \<and> is_finite b)"
    by blast
  from assms(1) have "is_ok (read_values fs filename)"
    by simp
  with ab(2) have "find_median fs filename a b = None"
    by (intro find_median_not_finite) auto
  with ab(1) show ?thesis
    by (simp add: median_def)
qed

text \<open>
  A search whose midpoint is the end that the verdict keeps calls itself on the same
  interval: no approximation of the least fixed point returns on it.
\<close>

lemma find_median_stuck:
  assumes "\<not> narrow l r" "is_median fs filename (midpoint l r) = Inr c"
    and "midpoint l r = (if c = Greater then l else r)"
  shows "find_median fs filename l r = None"
proof (cases "find_median fs filename l r")
  case (Some y)
  have "\<not> (fs' = fs \<and> fn' = filename \<and> l' = l \<and> r' = r)"
    if "find_median fs' fn' l' r' = Some y'" for fs' fn' l' r' y'
  proof (rule find_median.raw_induct
      [where P = "\<lambda>fs' fn' l' r' y'. \<not> (fs' = fs \<and> fn' = filename \<and> l' = l \<and> r' = r)", OF _ that])
    fix f fs' fn' l' r' and y' :: "f64 result"
    assume IH: "\<And>fs' fn' l' r' y'. f fs' fn' l' r' = Some y'
        \<Longrightarrow> \<not> (fs' = fs \<and> fn' = filename \<and> l' = l \<and> r' = r)"
      and eq: "(if narrow l' r' then Some (Inr l')
         else let mid = midpoint l' r'
              in case is_median fs' fn' mid of
                   Inl e \<Rightarrow> Some (Inl e)
                 | Inr Less \<Rightarrow> f fs' fn' l' mid
                 | Inr Equal \<Rightarrow> f fs' fn' l' mid
                 | Inr Greater \<Rightarrow> f fs' fn' mid r') = Some y'"
    show "\<not> (fs' = fs \<and> fn' = filename \<and> l' = l \<and> r' = r)"
    proof
      assume same: "fs' = fs \<and> fn' = filename \<and> l' = l \<and> r' = r"
      with eq assms have "f fs filename l r = Some y'"
        by (cases c) (simp_all split: if_splits)
      with IH show False
        by blast
    qed
  qed
  from this [OF Some] show ?thesis
    by simp
qed simp

section \<open>Results of the search\<close>

lemma find_median_wf:
  assumes "find_median fs filename l r = Some (Inr m)" "wf64 l"
  shows "wf64 m"
proof (rule find_median.raw_induct
    [where P = "\<lambda>fs fn l r res. wf64 l \<longrightarrow> (\<forall>m. res = Inr m \<longrightarrow> wf64 m)",
      rule_format, OF _ assms(1) assms(2) refl])
  fix f fs fn l r m and res :: "f64 result"
  assume IH: "\<And>fs fn l r res m. f fs fn l r = Some res \<Longrightarrow> wf64 l \<Longrightarrow> res = Inr m \<Longrightarrow> wf64 m"
    and wf: "wf64 l" and res: "res = Inr m"
    and eq: "(if narrow l r then Some (Inr l)
       else let mid = midpoint l r
            in case is_median fs fn mid of
                 Inl e \<Rightarrow> Some (Inl e)
               | Inr Less \<Rightarrow> f fs fn l mid
               | Inr Equal \<Rightarrow> f fs fn l mid
               | Inr Greater \<Rightarrow> f fs fn mid r) = Some res"
  show "wf64 m"
  proof (cases "narrow l r")
    case True
    with eq wf res show ?thesis
      by simp
  next
    case False
    with eq res have "f fs fn l (midpoint l r) = Some res \<or> f fs fn (midpoint l r) r = Some res"
      by (auto simp: Let_def split: sum.splits ordering.splits)
    with IH [OF _ wf res] IH [OF _ midpoint_wf res] show ?thesis
      by blast
  qed
qed

lemma median_wf:
  assumes "read_values fs filename = Inr xs" "median fs filename = Some (Inr m)"
  shows "wf64 m"
proof -
  from assms(2) obtain lo hi where
    mm: "min_max fs filename = Inr (Some (lo, hi))" "find_median fs filename lo hi = Some (Inr m)"
    by (auto simp: median_def split: sum.splits option.splits)
  from min_max_wf [OF assms(1) mm(1)] find_median_wf [OF mm(2)] show ?thesis
    by simp
qed

lemma mid_error_nonneg: "0 \<le> mid_error"
  by (simp add: mid_error_def)

lemma width_bound: "\<exists>n. (x :: real) \<le> 2 ^ n * (7 / 10000)"
proof -
  obtain n where "x * (10000 / 7) < 2 ^ n"
    using real_arch_pow [of 2 "x * (10000 / 7)"] by auto
  then have "x \<le> 2 ^ n * (7 / 10000)"
    by (simp add: field_simps)
  then show ?thesis ..
qed

lemma median_sound_values:
  assumes fv: "finite_values fs filename xs" and ret: "median fs filename = Some res"
  shows "\<exists>m. res = Inr m \<and> is_finite m \<and> wf64 m \<and> Min (val ` set xs) \<le> val m
           \<and> val m \<le> val (lower_median xs) \<and> val (lower_median xs) \<le> val m + tol_width"
proof -
  from fv have rv: "read_values fs filename = Inr xs" "list_all is_finite xs" "xs \<noteq> []"
    by (simp_all add: finite_values_def)
  from min_max_values [OF rv] obtain a b where
    ab: "min_max fs filename = Inr (Some (a, b))" "is_finite a" "is_finite b"
      "val a = Min (val ` set xs)" "val b = Max (val ` set xs)"
    by blast
  from min_max_wf [OF rv(1) ab(1)] have wf: "wf64 a" "wf64 b"
    by simp_all
  have "val (lower_median xs) \<in> val ` set xs"
    using lower_median_mem [OF rv(3)] by (rule imageI)
  then have between: "val a \<le> val (lower_median xs)" "val (lower_median xs) \<le> val b"
    by (simp_all add: ab)
  from ret ab(1) have "find_median fs filename a b = Some res"
    by (simp add: median_def)
  from find_median_sound [OF this fv] wf between
  have "approximates (val (lower_median xs)) a b res"
    by (simp add: sound_def)
  then show ?thesis
    by (auto simp: approximates_def ab(4))
qed

lemma median_returns:
  assumes fv: "finite_values fs filename xs" and "moderate xs"
  shows "\<exists>res. median fs filename = Some res"
proof -
  from fv have rv: "read_values fs filename = Inr xs" "list_all is_finite xs" "xs \<noteq> []"
    by (simp_all add: finite_values_def)
  from min_max_values [OF rv] obtain a b where
    ab: "min_max fs filename = Inr (Some (a, b))" "is_finite a" "is_finite b"
      "val a = Min (val ` set xs)" "val b = Max (val ` set xs)"
    by blast
  from min_max_wf [OF rv(1) ab(1)] have wf: "wf64 a" "wf64 b"
    by simp_all
  from rv(3) have "val a \<le> val b"
    by (simp add: ab)
  moreover from moderate_extrema [OF assms(2) rv(3)] have "\<bar>val a\<bar> \<le> 2 ^ 40" "\<bar>val b\<bar> \<le> 2 ^ 40"
    by (simp_all add: ab)
  moreover obtain n where "val b - val a \<le> 2 ^ n * (7 / 10000)"
    using width_bound by blast
  then have "val b - val a \<le> 2 ^ n * (7 / 10000) + 2 * mid_error"
    using mid_error_nonneg by linarith
  ultimately obtain res where "find_median_bounded n fs filename a b = Some res"
    using find_median_bounded_returns [OF ab(2,3) wf] by blast
  then have "find_median fs filename a b = Some res"
    by (rule find_median_bounded_sound)
  with ab(1) show ?thesis
    by (simp add: median_def)
qed

lemma median_values:
  assumes "finite_values fs filename xs" "moderate xs"
  shows "\<exists>m. median fs filename = Some (Inr m) \<and> is_finite m \<and> wf64 m
           \<and> Min (val ` set xs) \<le> val m
           \<and> val m \<le> val (lower_median xs) \<and> val (lower_median xs) \<le> val m + tol_width"
  using median_returns [OF assms] median_sound_values [OF assms(1)] by blast

lemma median_Nil:
  "read_values fs filename = Inr []
     \<Longrightarrow> median fs filename = Some (Inl (Panic ''median requires 1+ value''))"
  by (simp add: median_def min_max_Nil)

lemma median_error: "read_values fs filename = Inl e \<Longrightarrow> median fs filename = Some (Inl e)"
  by (simp add: median_def stat_errors)

text \<open>Overflow of the sum of the ends: the midpoint is infinite.\<close>

lemma find_median_overflow:
  assumes "is_ok (read_values fs filename)" "is_finite l" "is_finite r"
    and "1 \<le> \<bar>val l - val r\<bar>" "limit \<le> \<bar>val r + val l\<bar>"
  shows "find_median fs filename l r = None"
proof -
  from assms(4) have "rnd 1 \<le> rnd \<bar>val l - val r\<bar>"
    by (rule rnd_mono)
  then have "1 \<le> \<bar>rnd (val l - val r)\<bar>"
    using rnd_of_int [of 1] by (simp add: rnd_abs)
  with tol_bounds(2) have wide: "\<not> narrow l r"
    using assms(2,3) by (simp add: narrow_iff)
  from assms(5) have "rnd limit \<le> rnd \<bar>val r + val l\<bar>"
    by (rule rnd_mono)
  then have "\<not> is_finite (midpoint l r)"
    by (simp add: midpoint_finite_iff rnd_abs)
  with wide find_median_not_finite [OF assms(1), of l r] show ?thesis
    by blast
qed

section \<open>The example files\<close>

lemma finite_values_five:
  "finite_values fs_five bigfile [Fin 1, Fin 2, Fin 3, Fin 4, Fin 5]"
  by (simp add: finite_values_def read_values_five)

lemma lower_median_five: "lower_median [Fin 1, Fin 2, Fin 3, Fin 4, Fin 5] = Fin 3"
  by (simp add: lower_median_def less_eq_f64_def)

lemma finite_values_four: "finite_values fs_four bigfile [Fin 4, Fin 1, Fin 3, Fin 2]"
  by (simp add: finite_values_def read_values_four)

lemma lower_median_four: "lower_median [Fin 4, Fin 1, Fin 3, Fin 2] = Fin 2"
  by (simp add: lower_median_def less_eq_f64_def)

lemma moderate_examples:
  "moderate [Fin 1, Fin 2, Fin 3, Fin 4, Fin 5]" "moderate [Fin 4, Fin 1, Fin 3, Fin 2]"
  by (simp_all add: moderate_def)

text \<open>
  The file of three adjacent doubles near \<open>10 ^ 16\<close>: the sum of the extrema is a tie that
  rounds to twice the minimum, so the midpoint is the minimum, above which the verdict
  sends the search.
\<close>

abbreviation big_lo :: f64 where
  "big_lo \<equiv> Fin 10000000000000000"

abbreviation big_hi :: f64 where
  "big_hi \<equiv> Fin 10000000000000002"

lemma min_max_big: "min_max fs_big bigfile = Inr (Some (big_lo, big_hi))"
  by (simp add: min_max_def for_file_Inr [OF read_values_big] min_max_step_def unwrap_or_def
      zip_option_def fmin_def fmax_def flt_def)

lemma rnd_big_sum: "rnd 20000000000000002 = 20000000000000000"
  using rnd_scaled_up [of "20000000000000002 / 4" 2] by (simp add: rhe_def Let_def)

lemma rep64_big_sum [simp]: "rep64 20000000000000000"
  using rep64_scaled [of 152587890625 17] by simp

lemma midpoint_big: "midpoint big_lo big_hi = big_lo"
proof -
  have "fadd big_hi big_lo = Fin 20000000000000000"
    using round64_eval [OF rnd_big_sum] by (simp add: fadd_round)
  then show ?thesis
    by (simp add: fdiv_round)
qed

lemma wide_big: "\<not> narrow big_lo big_hi"
proof -
  have "rnd (- 2) = - 2"
    using rnd_of_int [of "- 2"] by simp
  with tol_bounds(2) show ?thesis
    by (simp add: narrow_iff)
qed

lemma is_median_big: "is_median fs_big bigfile big_lo = Inr Greater"
  by (simp add: is_median_def for_file_Inr [OF read_values_big] is_median_step_def
      total_cmp_def verdict_def abs_i64_def word_sless_alt)

text \<open>The file of two values whose sum is above the largest double.\<close>

lemma huge_order: "huge_lo + 1 \<le> huge_hi" "limit \<le> huge_hi + huge_lo"
proof -
  have "(1 :: real) \<le> 2 ^ 971"
    by (rule one_le_power) simp
  then have "huge_lo + 1 \<le> 5010420900022432 * 2 ^ 971 + 1 * 2 ^ 971"
    by (simp add: huge_lo_def)
  also have "\<dots> = 5010420900022433 * 2 ^ 971"
    by (simp only: distrib_right [symmetric]) simp
  also have "\<dots> \<le> huge_hi"
    unfolding huge_hi_def by (intro mult_right_mono) simp_all
  finally show "huge_lo + 1 \<le> huge_hi" .
  have "limit = 2 ^ 53 * 2 ^ 971"
    by (simp only: limit_def power_add [symmetric]) simp
  also have "\<dots> \<le> (8517715530038134 + 5010420900022432) * 2 ^ 971"
    by (intro mult_right_mono) simp_all
  also have "\<dots> = huge_hi + huge_lo"
    by (simp only: huge_lo_def huge_hi_def distrib_right)
  finally show "limit \<le> huge_hi + huge_lo" .
qed

lemma finite_values_huge: "finite_values fs_huge bigfile [Fin huge_lo, Fin huge_hi]"
  by (simp add: finite_values_def read_values_huge)

lemma extrema_huge:
  "Min (val ` set [Fin huge_lo, Fin huge_hi]) = huge_lo"
  "Max (val ` set [Fin huge_lo, Fin huge_hi]) = huge_hi"
  using huge_order(1) by (simp_all add: min_def max_def)

section \<open>Properties of the median\<close>

text \<open>
  \<^bold>\<open>C2\<close> (functional). On a non-empty file of fewer than \<open>2 ^ 63 - 1\<close> finite values of
  magnitude \<open>2 ^ 40\<close> at most, \<^verbatim>\<open>median\<close> returns, and its result is a finite double that is
  not below the minimum, never above the lower median of the values and at most
  \<open>0.001 + 2 ^ -62\<close> below it. The lower median is the value at index \<open>(n - 1) div 2\<close> of
  the sorted values, in the order of \<^verbatim>\<open>total_cmp\<close>. Midpoints and widths are rounded as the
  program rounds them; the bound on the magnitude keeps adjacent doubles closer than the
  tolerance.
\<close>

theorem median_lower_median:
  assumes "finite_values fs filename xs" "moderate xs"
  shows "\<exists>m. median fs filename = Some (Inr m) \<and> is_finite m
           \<and> Min (val ` set xs) \<le> val m \<and> val m \<le> val (lower_median xs)
           \<and> val (lower_median xs) \<le> val m + (1 / 1000 + 1 / 2 ^ 62)"
  using median_values [OF assms] by (auto simp: tol_width_def)

theorem median_lower_median_witness:
  "finite_values fs_four bigfile [Fin 4, Fin 1, Fin 3, Fin 2]
   \<and> moderate [Fin 4, Fin 1, Fin 3, Fin 2]
   \<and> (\<exists>m. median fs_four bigfile = Some (Inr m) \<and> val m \<le> 2
         \<and> 2 \<le> val m + (1 / 1000 + 1 / 2 ^ 62))"
  using median_lower_median [OF finite_values_four moderate_examples(2)]
  by (auto simp: finite_values_four moderate_examples lower_median_four)

text \<open>
  \<^bold>\<open>C3\<close> (functional). The verdict of one counting scan is sound for the lower median
  of the values: \<^verbatim>\<open>Less\<close> means the lower median is below the threshold, \<^verbatim>\<open>Greater\<close> that
  it is above, and \<^verbatim>\<open>Equal\<close> that it is not above. Narrowing to the left half on
  \<^verbatim>\<open>Equal\<close>, as \<^verbatim>\<open>find_median\<close> does, therefore keeps the lower median in the interval.
\<close>

theorem is_median_sound:
  assumes "finite_values fs filename xs" "is_median fs filename v = Inr c"
  shows "(c = Less \<longrightarrow> lower_median xs < v) \<and> (c = Equal \<longrightarrow> lower_median xs \<le> v)
           \<and> (c = Greater \<longrightarrow> v < lower_median xs)"
proof -
  from assms have c: "balance xs v = c"
    using finite_values_is_median [OF assms(1), of v] by simp
  from assms(1) have ne: "xs \<noteq> []"
    by (simp add: finite_values_def)
  show ?thesis
    using balance_Less [OF ne, of v] balance_Equal [OF ne, of v] balance_Greater [OF ne, of v]
    by (simp add: c)
qed

theorem is_median_sound_witness:
  "finite_values fs_four bigfile [Fin 4, Fin 1, Fin 3, Fin 2]
   \<and> is_median fs_four bigfile (Fin (5 / 2)) = Inr Equal
   \<and> lower_median [Fin 4, Fin 1, Fin 3, Fin 2] \<le> Fin (5 / 2)"
proof -
  have v: "is_median fs_four bigfile (Fin (5 / 2)) = Inr Equal"
    by (simp add: is_median_def for_file_Inr [OF read_values_four] is_median_step_def
        total_cmp_def verdict_def abs_i64_def word_sless_alt)
  from is_median_sound [OF finite_values_four v] finite_values_four v show ?thesis
    by simp
qed

text \<open>
  \<^bold>\<open>C4\<close> (safety). Whatever the magnitude of the values: when \<^verbatim>\<open>median\<close> returns on a
  non-empty file of finite values, it returns a value and no error, and the value is a
  finite double between the minimum and the lower median, at most \<open>0.001 + 2 ^ -62\<close>
  below the lower median. Narrowing to the left half on the verdict \<^verbatim>\<open>Equal\<close>, the branch
  the source marks with a question, is what keeps the lower median in the interval.
\<close>

theorem median_sound:
  assumes "finite_values fs filename xs" "median fs filename = Some res"
  shows "\<exists>m. res = Inr m \<and> is_finite m \<and> Min (val ` set xs) \<le> val m
           \<and> val m \<le> val (lower_median xs)
           \<and> val (lower_median xs) \<le> val m + (1 / 1000 + 1 / 2 ^ 62)"
  using median_sound_values [OF assms] by (auto simp: tol_width_def)

theorem median_sound_witness:
  "finite_values fs_four bigfile [Fin 4, Fin 1, Fin 3, Fin 2]
   \<and> (\<exists>res m. median fs_four bigfile = Some res \<and> res = Inr m \<and> val m \<le> 2
         \<and> 2 \<le> val m + (1 / 1000 + 1 / 2 ^ 62))"
proof -
  from median_returns [OF finite_values_four moderate_examples(2)] obtain res where
    res: "median fs_four bigfile = Some res"
    by blast
  from median_sound [OF finite_values_four res] res finite_values_four show ?thesis
    by (auto simp: lower_median_four)
qed

text \<open>
  \<^bold>\<open>C5\<close> (liveness). On a file that can be read and has an infinite value \<^verbatim>\<open>median\<close>
  does not return: the minimum or the maximum is infinite, and from an interval with
  an end that is not finite every midpoint is again not finite, so the width test
  never succeeds.
\<close>

theorem median_no_return_on_infinity:
  assumes "read_values fs filename = Inr xs" "Inf s \<in> set xs"
  shows "median fs filename = None"
  using assms by (rule median_infinity)

theorem median_no_return_on_infinity_witness:
  "read_values fs_inf bigfile = Inr [Fin 1, Inf False] \<and> Inf False \<in> set [Fin 1, Inf False]
   \<and> median fs_inf bigfile = None"
  using median_no_return_on_infinity [OF read_values_inf, of False] by (simp add: read_values_inf)

text \<open>
  \<^bold>\<open>C6\<close> (liveness). \<^verbatim>\<open>median\<close> does not return when the interval from the minimum to the
  maximum is wider than the tolerance and its midpoint is rounded to the end that the
  verdict keeps: the search calls itself on the same interval. This happens on finite
  values as soon as adjacent doubles are more than the tolerance apart, above about
  \<open>8.8e12\<close>; the witness is a file of three values near \<open>10 ^ 16\<close>.
\<close>

theorem median_no_progress:
  assumes "min_max fs filename = Inr (Some (lo, hi))" "\<not> narrow lo hi"
    and "is_median fs filename (midpoint lo hi) = Inr c"
    and "midpoint lo hi = (if c = Greater then lo else hi)"
  shows "median fs filename = None"
  using find_median_stuck [OF assms(2-4)] by (simp add: median_def assms(1))

theorem median_no_progress_witness:
  "min_max fs_big bigfile = Inr (Some (big_lo, big_hi)) \<and> \<not> narrow big_lo big_hi
   \<and> is_median fs_big bigfile (midpoint big_lo big_hi) = Inr Greater
   \<and> midpoint big_lo big_hi = big_lo
   \<and> median fs_big bigfile = None"
proof -
  have v: "is_median fs_big bigfile (midpoint big_lo big_hi) = Inr Greater"
    by (simp only: midpoint_big is_median_big)
  have "midpoint big_lo big_hi = (if Greater = Greater then big_lo else big_hi)"
    by (simp only: midpoint_big simp_thms if_True)
  from median_no_progress [OF min_max_big wide_big v this] min_max_big wide_big v midpoint_big
  show ?thesis
    by blast
qed

text \<open>
  \<^bold>\<open>C7\<close> (liveness). \<^verbatim>\<open>median\<close> does not return on a file of finite values whose minimum
  and maximum are at least \<open>1\<close> apart and add up to \<open>2 ^ 1024\<close> or more in magnitude: the sum
  \<^verbatim>\<open>right + left\<close> overflows, the midpoint is infinite, and so is an end of every later
  interval.
\<close>

theorem median_no_return_on_overflow:
  assumes "finite_values fs filename xs"
    and "1 \<le> Max (val ` set xs) - Min (val ` set xs)"
    and "2 ^ 1024 \<le> \<bar>Max (val ` set xs) + Min (val ` set xs)\<bar>"
  shows "median fs filename = None"
proof -
  from assms(1) have rv: "read_values fs filename = Inr xs" "list_all is_finite xs" "xs \<noteq> []"
    by (simp_all add: finite_values_def)
  from min_max_values [OF rv] obtain a b where
    ab: "min_max fs filename = Inr (Some (a, b))" "is_finite a" "is_finite b"
      "val a = Min (val ` set xs)" "val b = Max (val ` set xs)"
    by blast
  from rv(1) have "is_ok (read_values fs filename)"
    by simp
  from find_median_overflow [OF this ab(2,3)] assms(2,3) have "find_median fs filename a b = None"
    by (simp add: ab limit_def)
  with ab(1) show ?thesis
    by (simp add: median_def)
qed

theorem median_no_return_on_overflow_witness:
  "finite_values fs_huge bigfile [Fin huge_lo, Fin huge_hi]
   \<and> 1 \<le> huge_hi - huge_lo \<and> limit \<le> \<bar>huge_hi + huge_lo\<bar>
   \<and> median fs_huge bigfile = None"
proof -
  from huge_order have h: "1 \<le> huge_hi - huge_lo" "limit \<le> \<bar>huge_hi + huge_lo\<bar>"
    by simp_all
  then have "2 ^ 1024 \<le> \<bar>huge_hi + huge_lo\<bar>"
    by (simp only: limit_def)
  with median_no_return_on_overflow [OF finite_values_huge] h finite_values_huge show ?thesis
    by (simp only: extrema_huge simp_thms)
qed

text \<open>
  \<^bold>\<open>C34\<close> (bounds). With fewer than \<open>2 ^ 63 - 1\<close> values in the file the signed 64-bit
  counters of \<^verbatim>\<open>is_median\<close> do not wrap, neither in the difference nor in \<^verbatim>\<open>eq + 1\<close>:
  the verdict is the one computed on unbounded integers from the numbers of values
  below, equal to and above the threshold.
\<close>

theorem is_median_counts:
  assumes "read_values fs filename = Inr xs" "length xs + 1 < 2 ^ 63"
  shows "is_median fs filename v = Inr (balance xs v)"
  using assms by (rule is_median_values)

theorem is_median_counts_witness:
  "read_values fs_five bigfile = Inr [Fin 1, Fin 2, Fin 3, Fin 4, Fin 5]
   \<and> length [Fin 1, Fin 2, Fin 3, Fin 4, Fin 5] + 1 < 2 ^ 63
   \<and> is_median fs_five bigfile (Fin 3) = Inr Equal"
proof -
  have "balance [Fin 1, Fin 2, Fin 3, Fin 4, Fin 5] (Fin 3) = Equal"
    by (simp add: balance_def less_f64_def)
  with is_median_counts [OF read_values_five, of "Fin 3"] show ?thesis
    by (simp add: read_values_five)
qed

text \<open>
  \<^bold>\<open>C19\<close> (error). On a file without values \<^verbatim>\<open>median\<close> panics with the message of its
  \<^verbatim>\<open>expect\<close>, and when the scan fails it returns the error of the scan.
\<close>

theorem median_failures:
  "(read_values fs filename = Inr []
      \<longrightarrow> median fs filename = Some (Inl (Panic ''median requires 1+ value'')))
   \<and> (read_values fs filename = Inl e \<longrightarrow> median fs filename = Some (Inl e))"
  by (simp add: median_Nil median_error)

theorem median_failures_witness:
  "median fs_empty bigfile = Some (Inl (Panic ''median requires 1+ value''))
   \<and> median fs_bad bigfile = Some (Inl ParseFloatError)"
  using median_failures [of fs_empty bigfile] median_failures [of fs_bad bigfile ParseFloatError]
  by (simp add: read_values_empty read_values_bad)

text \<open>
  \<^bold>\<open>C21\<close> (termination). The cost of the search: on an interval whose ends are finite
  doubles of magnitude \<open>2 ^ 40\<close> at most, in order and at most \<open>2 ^ n * 0.0007\<close> apart,
  \<^verbatim>\<open>find_median\<close> returns after at most \<open>n\<close> scans of the file. Each midpoint is off the
  exact one by at most \<open>2 ^ -13\<close>, which leaves \<open>0.0007\<close> of the tolerance for the halving.
  For a run with extrema about \<open>0\<close> and \<open>38.7\<close>, as recorded at the end of \<^verbatim>\<open>src/main.rs\<close>,
  that is \<open>16\<close> scans.
\<close>

theorem median_scan_bound:
  assumes "is_finite l" "is_finite r" "wf64 l" "wf64 r" "val l \<le> val r"
    and "\<bar>val l\<bar> \<le> 2 ^ 40" "\<bar>val r\<bar> \<le> 2 ^ 40" "val r - val l \<le> 2 ^ n * (7 / 10000)"
  shows "\<exists>res. find_median_bounded n fs filename l r = Some res
           \<and> find_median fs filename l r = Some res"
proof -
  from assms(8) mid_error_nonneg have "val r - val l \<le> 2 ^ n * (7 / 10000) + 2 * mid_error"
    by linarith
  from find_median_bounded_returns [OF assms(1-7) this] obtain res where
    "find_median_bounded n fs filename l r = Some res"
    by blast
  then show ?thesis
    by (simp add: find_median_bounded_sound)
qed

theorem median_scan_bound_witness:
  "is_finite (Fin 0) \<and> is_finite (Fin (155 / 4)) \<and> wf64 (Fin 0) \<and> wf64 (Fin (155 / 4))
   \<and> 155 / 4 - 0 \<le> (2 :: real) ^ 16 * (7 / 10000)
   \<and> (\<exists>res. find_median_bounded 16 fs_five bigfile (Fin 0) (Fin (155 / 4)) = Some res
          \<and> find_median fs_five bigfile (Fin 0) (Fin (155 / 4)) = Some res)"
  using median_scan_bound [of "Fin 0" "Fin (155 / 4)" 16 fs_five bigfile]
  by (simp add: rep64_simps)

end
