(* ===== verification/Tail_Buffers.thy ===== *)
theory Tail_Buffers
  imports Scan_Engine
begin

text \<open>
  \<^verbatim>\<open>tails\<close> of \<^verbatim>\<open>file_stat\<close>: one scan that keeps the first \<open>len\<close> values in a vector
  and the last \<open>len\<close> values in a double-ended queue. Both containers are lists here:
  \<^verbatim>\<open>push\<close> and \<^verbatim>\<open>push_back\<close> append at the end, \<^verbatim>\<open>pop_front\<close> removes the head. The
  lemmas show that the result is the prefix and the suffix of the list of values, and
  that neither container ever holds more than \<open>len\<close> values during the scan.
\<close>

section \<open>Definitions\<close>

definition tails_step :: "usize \<Rightarrow> f64 \<Rightarrow> f64 list \<times> f64 list \<Rightarrow> f64 list \<times> f64 list" where
  "tails_step len x acc =
     (case acc of (left, right) \<Rightarrow>
        let left' = (if length left < unat len then left @ [x] else left);
            pushed = right @ [x];
            right' = (if length pushed > unat len then tl pushed else pushed)
        in (left', right'))"

definition tails :: "filesystem \<Rightarrow> string \<Rightarrow> usize \<Rightarrow> (f64 list \<times> f64 list) result" where
  "tails fs filename len =
     rbind (for_file fs filename (tails_step len) ([], [])) (\<lambda>(left, right). Inr (left, right))"

section \<open>The buffers after a prefix of the values\<close>

lemma tails_step_prefix_suffix:
  "tails_step len x (take (unat len) xs, drop (length xs - unat len) xs)
     = (take (unat len) (xs @ [x]), drop (length (xs @ [x]) - unat len) (xs @ [x]))"
proof (cases "length xs < unat len")
  case True
  then show ?thesis
    by (simp add: tails_step_def)
next
  case False
  then have "tl (drop (length xs - unat len) xs @ [x])
      = drop (Suc (length xs) - unat len) (xs @ [x])"
    by (intro tl_drop_snoc) simp
  with False show ?thesis
    by (simp add: tails_step_def Let_def)
qed

lemma fold_tails_step:
  "fold (tails_step len) xs ([], []) = (take (unat len) xs, drop (length xs - unat len) xs)"
proof (induction xs rule: rev_induct)
  case Nil
  show ?case by simp
next
  case (snoc x xs)
  then show ?case
    by (simp only: fold_append fold_simps comp_apply tails_step_prefix_suffix)
qed

lemma tails_values:
  "read_values fs filename = Inr xs
     \<Longrightarrow> tails fs filename len = Inr (take (unat len) xs, drop (length xs - unat len) xs)"
  by (simp add: tails_def for_file_Inr fold_tails_step)

lemma tails_error: "read_values fs filename = Inl e \<Longrightarrow> tails fs filename len = Inl e"
  by (simp add: tails_def for_file_Inl)

section \<open>Properties of the tails\<close>

text \<open>
  \<^bold>\<open>C9\<close> (functional). \<^verbatim>\<open>tails\<close> returns the first \<open>len\<close> and the last \<open>len\<close> values of the
  file, both in file order, so the oldest of the last values is at the front of the
  queue; each has \<open>min n len\<close> values, where \<open>n\<close> is the number of values of the file.
\<close>

theorem tails_prefix_suffix:
  assumes "read_values fs filename = Inr xs"
  shows "\<exists>left right. tails fs filename len = Inr (left, right)
           \<and> left = take (unat len) xs \<and> right = drop (length xs - unat len) xs
           \<and> length left = min (length xs) (unat len) \<and> length right = min (length xs) (unat len)"
  using assms by (auto simp: tails_values)

theorem tails_prefix_suffix_witness:
  "read_values fs_five bigfile = Inr [Fin 1, Fin 2, Fin 3, Fin 4, Fin 5]
   \<and> tails fs_five bigfile 2 = Inr ([Fin 1, Fin 2], [Fin 4, Fin 5])"
  using tails_prefix_suffix [OF read_values_five, of 2] by (auto simp: read_values_five)

text \<open>
  \<^bold>\<open>C38\<close> (invariant). At every moment of the scan, that is after every prefix of the
  values, neither the vector nor the queue holds more than \<open>len\<close> values: the memory of
  \<^verbatim>\<open>tails\<close> is bounded by \<open>len\<close> and not by the size of the file.
\<close>

theorem tails_bounded:
  assumes "fold (tails_step len) ys ([], []) = (left, right)"
  shows "length left \<le> unat len \<and> length right \<le> unat len"
  using assms by (auto simp: fold_tails_step)

theorem tails_bounded_witness:
  "fold (tails_step 2) [Fin 1, Fin 2, Fin 3] ([], []) = ([Fin 1, Fin 2], [Fin 2, Fin 3])
   \<and> length [Fin 1, Fin 2] \<le> unat (2 :: usize) \<and> length [Fin 2, Fin 3] \<le> unat (2 :: usize)"
proof -
  have run: "fold (tails_step 2) [Fin 1, Fin 2, Fin 3] ([], []) = ([Fin 1, Fin 2], [Fin 2, Fin 3])"
    by (simp add: tails_step_def)
  from tails_bounded [OF run] run show ?thesis
    by simp
qed

end
