(* ===== verification/Lap_Timer.thy ===== *)
theory Lap_Timer
  imports FS_Prelude
begin

text \<open>
  The lap timer \<^verbatim>\<open>elapsed\<close> of \<^verbatim>\<open>src/main.rs\<close> (lines 120 to 130). It keeps the instant of
  its last call in a \<^verbatim>\<open>static mut\<close> and returns the time since then. Here the static is
  a field of an explicit state that every call takes and returns, and the clock is a
  function from the number of readings taken so far to the instant read, so that a run
  is a function of the clock. Instants and durations are natural numbers of
  nanoseconds; the difference of two instants saturates at zero, as the subtraction of
  \<^verbatim>\<open>Instant\<close> does.
\<close>

section \<open>Definitions\<close>

type_synonym instant = nat
type_synonym duration = nat
type_synonym clock = "nat \<Rightarrow> instant"

record timer =
  slot :: "instant option"
  reads :: nat

definition timer_init :: timer where
  "timer_init = \<lparr>slot = None, reads = 0\<rparr>"

definition now :: "clock \<Rightarrow> timer \<Rightarrow> instant \<times> timer" where
  "now clk t = (clk (reads t), t\<lparr>reads := Suc (reads t)\<rparr>)"

definition instant_elapsed :: "clock \<Rightarrow> instant \<Rightarrow> timer \<Rightarrow> duration \<times> timer" where
  "instant_elapsed clk since t = (case now clk t of (n, t') \<Rightarrow> (n - since, t'))"

definition unwrap :: "'a option \<Rightarrow> 'a result" where
  "unwrap a =
     (case a of None \<Rightarrow> Inl (Panic ''called Option::unwrap() on a None value'') | Some x \<Rightarrow> Inr x)"

definition elapsed :: "clock \<Rightarrow> timer \<Rightarrow> (duration \<times> timer) result" where
  "elapsed clk t =
     (let t1 = (if slot t = None then (case now clk t of (i, t') \<Rightarrow> t'\<lparr>slot := Some i\<rparr>) else t)
      in rbind (unwrap (slot t1)) (\<lambda>x.
           case instant_elapsed clk x t1 of (ret, t2) \<Rightarrow>
             case now clk t2 of (i, t3) \<Rightarrow> Inr (ret, t3\<lparr>slot := Some i\<rparr>)))"

text \<open>A sequence of \<open>k\<close> calls, with the durations they return in the order of the calls.\<close>

fun laps :: "clock \<Rightarrow> nat \<Rightarrow> timer \<Rightarrow> (duration list \<times> timer) result" where
  "laps clk 0 t = Inr ([], t)"
| "laps clk (Suc k) t =
     rbind (elapsed clk t) (\<lambda>(d, t'). rbind (laps clk k t') (\<lambda>(ds, t''). Inr (d # ds, t'')))"

text \<open>
  The states of the timer that a program can reach: it starts with an empty static and
  changes the state by calls of \<^verbatim>\<open>elapsed\<close> only.
\<close>

inductive timer_reach :: "clock \<Rightarrow> timer \<Rightarrow> bool" for clk :: clock where
  start: "slot t = None \<Longrightarrow> timer_reach clk t"
| call: "timer_reach clk t \<Longrightarrow> elapsed clk t = Inr (d, t') \<Longrightarrow> timer_reach clk t'"

lemmas timer_defs = elapsed_def instant_elapsed_def now_def unwrap_def timer_init_def

section \<open>What one call does\<close>

text \<open>
  The first call reads the clock three times and returns the time between the first
  two readings; every later call reads it twice and returns the time from the last
  reading of the call before to its own first reading.
\<close>

lemma elapsed_first:
  "slot t = None \<Longrightarrow>
     elapsed clk t = Inr (clk (reads t + 1) - clk (reads t),
       \<lparr>slot = Some (clk (reads t + 2)), reads = reads t + 3\<rparr>)"
  by (simp add: timer_defs)

lemma elapsed_later:
  "slot t = Some x \<Longrightarrow>
     elapsed clk t = Inr (clk (reads t) - x, \<lparr>slot = Some (clk (reads t + 1)), reads = reads t + 2\<rparr>)"
  by (simp add: timer_defs)

lemma now_record [simp]:
  "now clk \<lparr>slot = s, reads = r\<rparr> = (clk r, \<lparr>slot = s, reads = r + 1\<rparr>)"
  by (simp add: now_def)

lemma instant_elapsed_record [simp]:
  "instant_elapsed clk since \<lparr>slot = s, reads = r\<rparr> = (clk r - since, \<lparr>slot = s, reads = r + 1\<rparr>)"
  by (simp add: instant_elapsed_def)

lemma elapsed_record [simp]:
  "elapsed clk \<lparr>slot = Some x, reads = r\<rparr>
     = Inr (clk r - x, \<lparr>slot = Some (clk (r + 1)), reads = r + 2\<rparr>)"
  by (simp add: elapsed_later)

lemma elapsed_after_start [simp]:
  "elapsed clk \<lparr>slot = None, reads = Suc 0\<rparr>
     = Inr (clk 2 - clk 1, \<lparr>slot = Some (clk 3), reads = 4\<rparr>)"
  by (simp add: elapsed_first eval_nat_numeral)

lemma elapsed_cases:
  obtains d t' where "elapsed clk t = Inr (d, t')" "slot t' = Some (clk (reads t' - 1))"
    "reads t + 2 \<le> reads t'"
proof (cases "slot t")
  case None
  from elapsed_first [OF this, of clk] that show ?thesis
    by simp
next
  case (Some x)
  from elapsed_later [OF this, of clk] that show ?thesis
    by simp
qed

section \<open>Sequences of calls\<close>

text \<open>
  The durations of \<open>k\<close> calls that follow a call: \<open>x\<close> is the instant in the static and \<open>r\<close>
  the number of clock readings taken so far.
\<close>

fun lap_list :: "clock \<Rightarrow> instant \<Rightarrow> nat \<Rightarrow> nat \<Rightarrow> duration list" where
  "lap_list clk x r 0 = []"
| "lap_list clk x r (Suc k) = (clk r - x) # lap_list clk (clk (r + 1)) (r + 2) k"

lemma laps_later:
  "slot t = Some x \<Longrightarrow>
     \<exists>t'. laps clk k t = Inr (lap_list clk x (reads t) k, t')
       \<and> slot t' \<noteq> None \<and> reads t' = reads t + 2 * k"
proof (induction k arbitrary: t x)
  case 0
  then show ?case by simp
next
  case (Suc k)
  let ?t = "\<lparr>slot = Some (clk (reads t + 1)), reads = reads t + 2\<rparr>"
  have "slot ?t = Some (clk (reads t + 1))"
    by simp
  from Suc.IH [OF this] show ?case
    by (auto simp: elapsed_later [OF Suc.prems])
qed

lemma length_lap_list [simp]: "length (lap_list clk x r k) = k"
  by (induction k arbitrary: x r) simp_all

lemma sum_lap_list_le:
  fixes clk :: clock
  assumes "mono clk"
  shows "x \<le> clk r \<Longrightarrow> sum_list (lap_list clk x r k) \<le> clk (r + 2 * k) - x"
proof (induction k arbitrary: x r)
  case 0
  then show ?case by simp
next
  case (Suc k)
  have m: "clk r \<le> clk (r + 1)" "clk (r + 1) \<le> clk (r + 2)"
    "clk (r + 2) \<le> clk (r + 2 + 2 * k)"
    by (auto intro!: monoD [OF assms])
  from Suc.IH [OF m(2)] m Suc.prems show ?case
    by (simp add: add.commute add.left_commute)
qed

section \<open>Properties of the timer\<close>

text \<open>
  \<^bold>\<open>C26\<close> (safety). The \<^verbatim>\<open>unwrap\<close> of the static never panics: whatever the state, a call
  returns a duration, leaves an instant in the static and has read the clock.
\<close>

theorem elapsed_never_panics:
  "\<exists>d t'. elapsed clk t = Inr (d, t') \<and> slot t' \<noteq> None \<and> reads t < reads t'"
proof -
  obtain d t' where "elapsed clk t = Inr (d, t')" "slot t' = Some (clk (reads t' - 1))"
    "reads t + 2 \<le> reads t'"
    by (rule elapsed_cases)
  then show ?thesis
    by simp
qed

text \<open>
  \<^bold>\<open>C28\<close> (functional). A call that follows another returns the time from the last clock
  reading of the call before it to its own first reading, and reads the clock twice: the
  time a call itself takes between its readings is in no lap.
\<close>

theorem elapsed_since_last_call:
  assumes "elapsed clk t = Inr (d1, t1)" "elapsed clk t1 = Inr (d2, t2)"
  shows "d2 = clk (reads t1) - clk (reads t1 - 1) \<and> reads t2 = reads t1 + 2"
proof -
  obtain d t' where "elapsed clk t = Inr (d, t')" "slot t' = Some (clk (reads t' - 1))"
    by (rule elapsed_cases)
  with assms(1) have "slot t1 = Some (clk (reads t1 - 1))"
    by simp
  from elapsed_later [OF this, of clk] assms(2) show ?thesis
    by auto
qed

theorem elapsed_since_last_call_witness:
  "elapsed (\<lambda>n. 10 * n) timer_init = Inr (10, \<lparr>slot = Some 20, reads = 3\<rparr>)
   \<and> elapsed (\<lambda>n. 10 * n) \<lparr>slot = Some 20, reads = 3\<rparr> = Inr (10, \<lparr>slot = Some 40, reads = 5\<rparr>)"
  using elapsed_since_last_call [of "\<lambda>n. 10 * n" timer_init 10 "\<lparr>slot = Some 20, reads = 3\<rparr>"
      10 "\<lparr>slot = Some 40, reads = 5\<rparr>"]
  by (simp add: timer_init_def elapsed_first)

text \<open>
  \<^bold>\<open>C29\<close> (bounds). With a clock that does not go back, the durations of \<open>k\<close> calls in a
  row add up to at most the time from the instant in the static before the first of
  them to the next reading of the clock after the last: laps do not overlap.
\<close>

theorem laps_within_total:
  fixes clk :: clock
  assumes "mono clk" "slot t = Some x" "x \<le> clk (reads t)"
  shows "\<exists>ds t'. laps clk k t = Inr (ds, t') \<and> length ds = k
           \<and> sum_list ds \<le> clk (reads t') - x"
proof -
  from laps_later [OF assms(2), of clk k] obtain t' where
    t': "laps clk k t = Inr (lap_list clk x (reads t) k, t')" "reads t' = reads t + 2 * k"
    by blast
  with sum_lap_list_le [OF assms(1, 3), of k] show ?thesis
    by simp
qed

theorem laps_within_total_witness:
  "mono (\<lambda>n :: nat. 10 * n) \<and> 20 \<le> 10 * (3 :: nat)
   \<and> (\<exists>ds t'. laps (\<lambda>n. 10 * n) 2 \<lparr>slot = Some 20, reads = 3\<rparr> = Inr (ds, t')
          \<and> length ds = 2 \<and> sum_list ds \<le> 10 * reads t' - 20)"
proof -
  have m: "mono (\<lambda>n :: nat. 10 * n)"
    by (simp add: mono_def)
  from laps_within_total [OF m, of "\<lparr>slot = Some 20, reads = 3\<rparr>" 20 2] m show ?thesis
    by simp
qed

text \<open>
  \<^bold>\<open>C27\<close> (invariant). In every state that the timer reaches from an empty static by calls
  of \<^verbatim>\<open>elapsed\<close>, the static is empty or holds the latest reading of the clock: no lap is
  measured from an instant older than the end of the call before it.
\<close>

theorem timer_invariant:
  assumes "timer_reach clk t"
  shows "slot t = None \<or> (slot t = Some (clk (reads t - 1)) \<and> 2 \<le> reads t)"
  using assms
proof (induction rule: timer_reach.induct)
  case (start t)
  then show ?case by simp
next
  case (call t d t')
  obtain d0 t0 where "elapsed clk t = Inr (d0, t0)" "slot t0 = Some (clk (reads t0 - 1))"
    "reads t + 2 \<le> reads t0"
    by (rule elapsed_cases)
  with call.hyps(2) show ?case
    by simp
qed

theorem timer_invariant_witness:
  "timer_reach (\<lambda>n. 10 * n) \<lparr>slot = Some 20, reads = 3\<rparr>
   \<and> slot \<lparr>slot = Some 20, reads = 3\<rparr> = Some (10 * (3 - 1 :: nat))"
proof -
  have "timer_reach (\<lambda>n. 10 * n) timer_init"
    by (rule timer_reach.start) (simp add: timer_init_def)
  then have r: "timer_reach (\<lambda>n. 10 * n) \<lparr>slot = Some 20, reads = 3\<rparr>"
    by (rule timer_reach.call) (simp add: timer_init_def elapsed_first)
  from timer_invariant [OF r] r show ?thesis
    by simp
qed

end
