(* ===== verification/Spec2Isabelle.thy ===== *)
theory Spec2Isabelle
  imports Median_Search Tail_Buffers Lap_Timer
begin

text \<open>
  \<^bold>\<open>bigfilestat\<close> computes statistics of one large file of numbers separated by
  blanks without keeping the file in memory: every statistic is one or more scans of
  the file. The program is \<^verbatim>\<open>src/main.rs\<close>: the module \<^verbatim>\<open>file_stat\<close> with the scan
  engine \<^verbatim>\<open>for_file\<close> and the statistics built on it, the lap timer \<^verbatim>\<open>elapsed\<close>, and a
  \<^verbatim>\<open>main\<close> that prints every statistic with the time it took.

  \<^bold>\<open>Parts of the program and where they are modelled.\<close>
  \<^item> \<open>FS_Prelude\<close>: the integer types (\<^verbatim>\<open>u8\<close>, \<^verbatim>\<open>u64\<close>, \<^verbatim>\<open>i64\<close>, \<^verbatim>\<open>usize\<close> as words), the
    failure values of \<^verbatim>\<open>Result<T>\<close> and of a panic (\<open>error\<close>), \<open>rbind\<close> for the \<^verbatim>\<open>?\<close>
    operator, \<^verbatim>\<open>Ordering\<close>, and the shared lemmas on counters, filters, extrema, sums and
    sliding windows.
  \<^item> \<open>Binary64\<close>: the rounding of the \<^verbatim>\<open>f64\<close> format on real numbers. \<open>rnd\<close> rounds to
    the nearest number with a significand of \<open>53\<close> bits and an exponent down to the
    subnormal range, ties to even; \<open>rep64\<close> are the finite numbers of the format, below
    \<open>limit = 2 ^ 1024\<close>; \<open>unit_roundoff = 2 ^ -53\<close> and \<open>least_subnormal = 2 ^ -1074\<close> bound
    the error of one rounding. The lemmas give monotonicity, idempotence, the error
    bounds, exactness on the numbers of the format, and rules that evaluate \<open>rnd\<close> on a
    literal.
  \<^item> \<open>Float_Sum\<close>: a sum accumulated from the left with every partial sum rounded
    (\<open>fl_sum\<close>), as the closures of \<^verbatim>\<open>average\<close> and \<^verbatim>\<open>dispersion\<close> accumulate, with the
    bound on its distance to the exact sum.
  \<^item> \<open>F64_Model\<close>: \<^verbatim>\<open>f64\<close> as a datatype of finite numbers, negative zero, signed
    infinities and signed NaNs, with \<^verbatim>\<open>+\<close>, \<^verbatim>\<open>-\<close>, \<^verbatim>\<open>/\<close>, \<^verbatim>\<open>powi\<close>, \<^verbatim>\<open>abs\<close>, \<^verbatim>\<open><=\<close>, \<^verbatim>\<open>min\<close>,
    \<^verbatim>\<open>max\<close>, \<^verbatim>\<open>total_cmp\<close> and the conversion from \<^verbatim>\<open>u64\<close>. Every operation on finite
    values returns its exact result rounded by \<open>round64\<close>: to the nearest double, to an
    infinity on overflow, to a signed zero on underflow. The special values follow
    IEEE 754. \<open>wf64\<close> is the type invariant (a finite value is a number of the format);
    the order of \<^verbatim>\<open>total_cmp\<close> is the \<open>linorder\<close> instance of the type.
  \<^item> \<open>Float_Parse\<close>: line 14 of \<^verbatim>\<open>for_file\<close> on one token, \<^verbatim>\<open>String::from_utf8\<close>
    (\<open>utf8_valid\<close>, \<open>from_utf8\<close>) and \<^verbatim>\<open>str::parse::<f64>\<close> (\<open>parse_f64\<close> with the grammar of
    the standard library, the value of a literal rounded by \<open>make_float\<close>), composed in
    \<open>parse_token\<close>; \<open>float_char\<close> is the set of bytes that an accepted token can hold.
  \<^item> \<open>Scan_Engine\<close>: \<^verbatim>\<open>for_file\<close>. The file system is a map from names to files
    (\<open>data_file\<close>: the bytes and an optional offset at which reading fails);
    \<^verbatim>\<open>BufRead::split\<close> is \<open>split\<close> over \<open>read_until\<close>, with \<open>tokens\<close> as its recursive
    characterisation; \<open>scan_items\<close> is the loop and \<open>for_file\<close> the function. A closure
    that updates captured variables is a step function on their values. \<open>read_values\<close>
    is the specification: the list of all values of a file, or the first error.
  \<^item> \<open>Stat_Library\<close>: \<^verbatim>\<open>min_max\<close>, \<^verbatim>\<open>len\<close>, \<^verbatim>\<open>average\<close>, \<^verbatim>\<open>dispersion\<close>, each with the step
    function of its closure; \<open>mean\<close> and \<open>variance\<close> of a list of reals as specifications.
  \<^item> \<open>Order_Statistics\<close>: the lower median of a list over a linear order and the
    decision \<open>balance\<close> by counting, with the lemmas that relate the two.
  \<^item> \<open>Median_Search\<close>: \<^verbatim>\<open>is_median\<close> (step function \<open>is_median_step\<close>, decision \<open>verdict\<close>
    on the three \<^verbatim>\<open>i64\<close> counters), \<^verbatim>\<open>find_median\<close> and \<^verbatim>\<open>median\<close>.
  \<^item> \<open>Tail_Buffers\<close>: \<^verbatim>\<open>tails\<close> with the step function \<open>tails_step\<close>; the vector and the
    queue are lists.
  \<^item> \<open>Lap_Timer\<close>: \<^verbatim>\<open>elapsed\<close>. Its \<^verbatim>\<open>static mut\<close> is the field \<open>slot\<close> of the state \<open>timer\<close>
    that every call takes and returns; the clock is a function from the number of
    readings taken so far (\<open>reads\<close>) to the instant read, \<open>now\<close> is \<^verbatim>\<open>Instant::now\<close> and
    \<open>instant_elapsed\<close> is \<^verbatim>\<open>Instant::elapsed\<close>.
  \<^item> This theory: \<^verbatim>\<open>main\<close> as the function \<open>main\<close> from the clock and the file system to
    a \<open>run\<close>: the lines printed (\<open>line\<close>, one constructor for each \<^verbatim>\<open>println!\<close> with the
    values it formats) and the outcome. The statistics, the calls of the timer and
    the lines are in the order of the source; \<open>pbind\<close> is the \<^verbatim>\<open>?\<close> of \<^verbatim>\<open>main\<close> and \<open>println\<close>
    the printing of a line. The properties that span the components are here.

  \<^bold>\<open>What the lemmas show.\<close> The development reduces every statistic to a function
  of the list of values of the file (\<open>for_file_refines\<close>) and proves its result on that
  list. \<^verbatim>\<open>len\<close> is the length while the counter has not wrapped; \<^verbatim>\<open>min_max\<close> is the least
  and the greatest number; \<^verbatim>\<open>tails\<close> is a prefix and a suffix. \<^verbatim>\<open>average\<close> and
  \<^verbatim>\<open>dispersion\<close> round at every addition, subtraction, product and division: they are
  the correctly rounded mean and population variance when every intermediate result is
  representable (\<open>average_is_mean\<close>, \<open>dispersion_is_variance\<close>), and in general the
  rounded accumulations of \<open>Float_Sum\<close>, for which \<open>average_error\<close> bounds the distance to
  the exact mean. On the file \<^verbatim>\<open>0.1 0.1 0.1\<close> the average is above the maximum and the
  dispersion is \<open>2 ^ -112\<close> and not zero (\<open>average_above_maximum\<close>, the example of
  \<open>dispersion_rounded\<close>). \<^verbatim>\<open>median\<close> returns a double that is never above the lower median
  and at most \<open>0.001 + 2 ^ -62\<close> below it: whenever it returns on finite values
  (\<open>median_sound\<close>), and it does return when the values are at most \<open>2 ^ 40\<close> in magnitude
  (\<open>median_lower_median\<close>). The verdict \<^verbatim>\<open>Equal\<close> of \<^verbatim>\<open>is_median\<close> is shown to mean that the
  lower median is not above the threshold, so that narrowing to the left in that case
  is what makes the search converge to the lower median. Every value returned is a
  number of the format (\<open>results_binary64\<close>). Every failure is a value: a file that
  cannot be opened or read, a token that is not UTF-8 or not a number, the panics of
  \<^verbatim>\<open>expect\<close>. The timer is shown never to panic on its \<^verbatim>\<open>unwrap\<close>, to measure from the end
  of one call to the beginning of the next, and to report laps that add up to no more
  than the total time when the clock does not go back.

  \<^bold>\<open>Non-termination and fuel.\<close> \<^verbatim>\<open>find_median\<close> is defined with
  \<^theory_text>\<open>partial_function (option)\<close>; \<open>None\<close> is a search that does not return, and the
  definition of the program uses no fuel. The search does not return in three cases,
  each with a file that shows it: an end of the interval that is infinite or NaN
  (\<open>median_no_return_on_infinity\<close>, the file \<^verbatim>\<open>1 inf\<close>); a sum of the ends that overflows
  (\<open>median_no_return_on_overflow\<close>, the file \<^verbatim>\<open>1e308 1.7e308\<close>); and a midpoint that is
  rounded to an end which the verdict keeps, which happens where adjacent doubles are
  further apart than the tolerance (\<open>median_no_progress\<close>, three values near \<open>10 ^ 16\<close>).
  The outcome of a run of \<^verbatim>\<open>main\<close> is then \<open>None\<close> after the lines printed before the median.
  \<open>find_median_bounded n\<close> is the same search cut off after \<open>n\<close> scans. It measures the
  cost: every result it gives is the result of \<^verbatim>\<open>find_median\<close>, and \<open>n\<close> scans are enough
  on ends of magnitude \<open>2 ^ 40\<close> at most that are no more than \<open>2 ^ n * 0.0007\<close> apart
  (\<open>median_scan_bound\<close>).

  \<^bold>\<open>Bounds.\<close>
  \<^item> Counters are 64-bit words that wrap, as in a release build. The result on \<^verbatim>\<open>len\<close>
    assumes fewer than \<open>2 ^ 64\<close> values and those on \<^verbatim>\<open>is_median\<close> fewer than \<open>2 ^ 63 - 1\<close>,
    which is where the counters are exact.
  \<^item> The results on \<^verbatim>\<open>average\<close> and \<^verbatim>\<open>dispersion\<close> assume at most \<open>2 ^ 53\<close> values, up to
    which the conversion of the counter to \<^verbatim>\<open>f64\<close> is exact (\<open>countable_values\<close>). The
    error bound assumes fewer than \<open>2 ^ 52\<close> values: there the \<open>n\<close> roundings of a sum grow
    an error by the factor \<open>n / 2 ^ 52\<close> at most, which is below \<open>1\<close>, so that a sum of
    magnitudes up to \<open>2 ^ 1022\<close> does not overflow.
  \<^item> Termination of the search assumes values of magnitude \<open>2 ^ 40\<close> at most
    (\<open>moderate\<close>). A midpoint of such values is off the exact one by \<open>mid_error\<close>, about
    \<open>2 ^ -13\<close>; twice that and \<open>0.0007\<close> are within the tolerance, so the width falls below
    the tolerance after finitely many halvings. Above \<open>2 ^ 43\<close> adjacent doubles are
    further apart than the tolerance and the search can stall.

  \<^bold>\<open>Limits of the model.\<close>
  \<^item> \<^verbatim>\<open>powi(2)\<close> is the product of the value with itself, rounded once; NaN payloads
    are not distinguished, and a NaN made by an operation is positive.
  \<^item> \<^verbatim>\<open>f64::min\<close> and \<^verbatim>\<open>f64::max\<close> may return either operand when both compare equal;
    the model returns the receiver.
  \<^item> Arithmetic on counters wraps; the overflow panics of a debug build are not
    modelled, and \<^verbatim>\<open>usize\<close> is 64 bits wide.
  \<^item> A read error is placed at a byte offset and is one value \<open>IoError\<close> whatever its
    kind; the buffer size of \<^verbatim>\<open>BufReader\<close> is not modelled.
  \<^item> The text of the lines that \<^verbatim>\<open>main\<close> prints (the formats of \<^verbatim>\<open>println!\<close>) is not
    modelled: a line is the values it shows. A failure of the output stream is not
    modelled either.
  \<^item> Instants and durations are natural numbers of nanoseconds without an upper bound,
    and the clock is read only by \<^verbatim>\<open>main\<close> and the timer; the time a statistic takes is
    the difference between the readings around it.
\<close>

section \<open>The run of main\<close>

text \<open>
  One constructor for every \<^verbatim>\<open>println!\<close> of \<^verbatim>\<open>main\<close>, with the values it formats. A run is
  the list of the lines printed and the outcome: \<open>Some (Inr ())\<close> for \<^verbatim>\<open>Ok(())\<close>,
  \<open>Some (Inl e)\<close> for an error returned or a panic, \<open>None\<close> when \<^verbatim>\<open>main\<close> does not return.
\<close>

datatype line =
    Len usize duration
  | MinMax "f64 \<times> f64" duration
  | Average f64 duration
  | Dispersion f64 duration
  | Median f64 duration
  | LeftTail "f64 list" duration
  | RightTail "f64 list"
  | TimeTook duration

type_synonym run = "line list \<times> unit result option"

definition expect :: "'a option \<Rightarrow> string \<Rightarrow> 'a result" where
  "expect a msg = (case a of None \<Rightarrow> Inl (Panic msg) | Some x \<Rightarrow> Inr x)"

text \<open>
  \<open>pbind\<close> is the \<^verbatim>\<open>?\<close> of \<^verbatim>\<open>main\<close> on a call that may fail or not return: the rest of the
  run happens only after a value. \<open>println\<close> puts a line in front of what the rest of
  the run prints.
\<close>

definition pbind :: "'a result option \<Rightarrow> ('a \<Rightarrow> run) \<Rightarrow> run" where
  "pbind m f =
     (case m of None \<Rightarrow> ([], None) | Some (Inl e) \<Rightarrow> ([], Some (Inl e)) | Some (Inr x) \<Rightarrow> f x)"

definition println :: "line \<Rightarrow> run \<Rightarrow> run" where
  "println l rest = (case rest of (out, res) \<Rightarrow> (l # out, res))"

text \<open>
  The statements of \<^verbatim>\<open>main\<close> in their order. The arguments of a \<^verbatim>\<open>println!\<close> are evaluated
  from left to right before the line is printed: the statistic first, with its early
  exit, then the lap.
\<close>

definition main :: "clock \<Rightarrow> filesystem \<Rightarrow> run" where
  "main clk fs =
     (case now clk timer_init of (start_time, t0) \<Rightarrow>
      let filename = ''testdata/bigfile.txt'' in
      pbind (Some (elapsed clk t0)) (\<lambda>(d0, t1).
      pbind (Some (len fs filename)) (\<lambda>n.
      pbind (Some (elapsed clk t1)) (\<lambda>(d1, t2).
      println (Len n d1) (
      pbind (Some (rbind (min_max fs filename) (\<lambda>m. expect m ''no values''))) (\<lambda>mm.
      pbind (Some (elapsed clk t2)) (\<lambda>(d2, t3).
      println (MinMax mm d2) (
      pbind (Some (average fs filename)) (\<lambda>avg.
      pbind (Some (elapsed clk t3)) (\<lambda>(d3, t4).
      println (Average avg d3) (
      pbind (Some (dispersion fs filename)) (\<lambda>disp.
      pbind (Some (elapsed clk t4)) (\<lambda>(d4, t5).
      println (Dispersion disp d4) (
      pbind (median fs filename) (\<lambda>med.
      pbind (Some (elapsed clk t5)) (\<lambda>(d5, t6).
      println (Median med d5) (
      pbind (Some (tails fs filename 10000)) (\<lambda>(left, right).
      pbind (Some (elapsed clk t6)) (\<lambda>(d6, t7).
      println (LeftTail (take 10 left) d6) (
      println (RightTail (take 10 (rev right))) (
      case instant_elapsed clk start_time t7 of (whole, t8) \<Rightarrow>
      println (TimeTook whole) ([], Some (Inr ())))))))))))))))))))))))"

lemma pbind_simps [simp]:
  "pbind None f = ([], None)" "pbind (Some (Inl e)) f = ([], Some (Inl e))"
  "pbind (Some (Inr x)) f = f x"
  by (simp_all add: pbind_def)

lemma println_simp [simp]: "println l (out, res) = (l # out, res)"
  by (simp add: println_def)

lemma pbind_eq_Ok_iff:
  "pbind m f = (out, Some (Inr y)) \<longleftrightarrow> (\<exists>x. m = Some (Inr x) \<and> f x = (out, Some (Inr y)))"
  by (auto simp: pbind_def split: option.splits sum.splits)

lemma println_eq_iff:
  "println l rest = (out, res) \<longleftrightarrow> (\<exists>out'. out = l # out' \<and> rest = (out', res))"
  by (cases rest) auto

lemmas main_unfold = main_def timer_init_def expect_def

section \<open>The example file, statistic by statistic\<close>

lemma len_five: "len fs_five bigfile = Inr 5"
  by (simp add: len_values [OF read_values_five])

lemma min_max_five: "min_max fs_five bigfile = Inr (Some (Fin 1, Fin 5))"
  by (simp add: min_max_def for_file_Inr [OF read_values_five] min_max_step_def unwrap_or_def
      zip_option_def fmin_def fmax_def flt_def)

lemma countable_values_five:
  "countable_values fs_five bigfile [Fin 1, Fin 2, Fin 3, Fin 4, Fin 5]"
  by (simp add: countable_values_def read_values_five)

lemma five_exact:
  "exact_sums 0 (map val [Fin 1, Fin 2, Fin 3, Fin 4, Fin 5])"
  "exact_variance (map val [Fin 1, Fin 2, Fin 3, Fin 4, Fin 5])"
  "mean (map val [Fin 1, Fin 2, Fin 3, Fin 4, Fin 5]) = 3"
  "variance (map val [Fin 1, Fin 2, Fin 3, Fin 4, Fin 5]) = 2"
  by (simp_all add: exact_variance_def variance_def mean_def power2_eq_square)

lemma average_five: "average fs_five bigfile = Inr (Fin 3)"
proof -
  from average_exact [OF countable_values_five five_exact(1)] obtain m where
    "average fs_five bigfile = Inr m" "is_finite m" "val m = rnd 3"
    unfolding five_exact(3) by blast
  then show ?thesis
    by (auto dest: finite_val_eq)
qed

lemma dispersion_five: "dispersion fs_five bigfile = Inr (Fin 2)"
proof -
  from dispersion_exact [OF countable_values_five five_exact(2)] obtain d where
    "dispersion fs_five bigfile = Inr d" "is_finite d" "val d = rnd 2"
    unfolding five_exact(4) by blast
  then show ?thesis
    by (auto dest: finite_val_eq)
qed

lemma balance_five:
  "balance [Fin 1, Fin 2, Fin 3, Fin 4, Fin 5] (Fin v) = Greater \<longleftrightarrow> v < 3"
  by (auto simp: balance_def less_f64_def)

text \<open>
  The search on the example: from \<open>[1, 5]\<close> to \<open>[1, 3]\<close> and \<open>[2, 3]\<close>, then the left end
  moves to \<open>3 - 2 ^ -k\<close> until the width is \<open>2 ^ -10\<close>; all these numbers are representable,
  so no midpoint is rounded.
\<close>

lemma midpoint_exact:
  assumes "rep64 (b + a)" "rep64 ((b + a) / 2)" "b + a \<noteq> 0"
  shows "midpoint (Fin a) (Fin b) = Fin ((b + a) / 2)"
  using assms by simp

lemma narrow_exact: "rep64 (a - b) \<Longrightarrow> narrow (Fin a) (Fin b) \<longleftrightarrow> \<bar>a - b\<bar> \<le> tol"
  by (simp add: narrow_iff)

lemmas search_eval =
  midpoint_exact narrow_exact rep64_frac [where j = 10] balance_five tol_def

lemma median_five: "median fs_five bigfile = Some (Inr (Fin (3071 / 1024)))"
  by (simp add: median_def min_max_five)
    ((subst find_median_step [OF finite_values_five]; simp add: search_eval)+)

lemma tails_five:
  "tails fs_five bigfile 10000 = Inr ([Fin 1, Fin 2, Fin 3, Fin 4, Fin 5], [Fin 1, Fin 2, Fin 3, Fin 4, Fin 5])"
  by (simp add: tails_values [OF read_values_five])

section \<open>Properties of the whole run\<close>

text \<open>The run as a function of the results of the six statistics.\<close>

lemma main_complete:
  assumes "len fs bigfile = Inr n" "min_max fs bigfile = Inr (Some mm)"
    "average fs bigfile = Inr avg" "dispersion fs bigfile = Inr disp"
    "median fs bigfile = Some (Inr med)" "tails fs bigfile 10000 = Inr (left, right)"
  shows "main clk fs =
    ([Len n (clk 4 - clk 3), MinMax mm (clk 6 - clk 5), Average avg (clk 8 - clk 7),
      Dispersion disp (clk 10 - clk 9), Median med (clk 12 - clk 11),
      LeftTail (take 10 left) (clk 14 - clk 13), RightTail (take 10 (rev right)),
      TimeTook (clk 16 - clk 0)], Some (Inr ()))"
  by (simp add: main_unfold assms)

lemma main_on_five:
  "main clk fs_five =
    ([Len 5 (clk 4 - clk 3), MinMax (Fin 1, Fin 5) (clk 6 - clk 5), Average (Fin 3) (clk 8 - clk 7),
      Dispersion (Fin 2) (clk 10 - clk 9), Median (Fin (3071 / 1024)) (clk 12 - clk 11),
      LeftTail [Fin 1, Fin 2, Fin 3, Fin 4, Fin 5] (clk 14 - clk 13),
      RightTail [Fin 5, Fin 4, Fin 3, Fin 2, Fin 1], TimeTook (clk 16 - clk 0)], Some (Inr ()))"
  using main_complete [OF len_five min_max_five average_five dispersion_five median_five tails_five]
  by simp

lemma main_complete_cases:
  assumes "main clk fs = (out, Some (Inr u))"
  obtains n mm avg disp med left right where
    "len fs bigfile = Inr n" "min_max fs bigfile = Inr (Some mm)"
    "average fs bigfile = Inr avg" "dispersion fs bigfile = Inr disp"
    "median fs bigfile = Some (Inr med)" "tails fs bigfile 10000 = Inr (left, right)"
  using assms
  by (auto simp: main_unfold Let_def pbind_eq_Ok_iff println_eq_iff rbind_eq_Inr_iff
      split: prod.splits option.splits)

lemma main_error:
  "read_values fs bigfile = Inl e \<Longrightarrow> main clk fs = ([], Some (Inl e))"
  by (simp add: main_unfold stat_errors(1))

lemma main_Nil:
  "read_values fs bigfile = Inr [] \<Longrightarrow>
     main clk fs = ([Len 0 (clk 4 - clk 3)], Some (Inl (Panic ''no values'')))"
  by (simp add: main_unfold len_values min_max_Nil)

text \<open>
  \<^bold>\<open>C8\<close> (functional). On a non-empty file of fewer than \<open>2 ^ 52\<close> finite values of
  magnitude \<open>2 ^ 40\<close> at most, \<^verbatim>\<open>main\<close> returns \<^verbatim>\<open>Ok\<close> after printing its eight lines, and the
  values printed are these: the length; the least and the greatest number; an average
  within \<open>(n + 1) / 2 ^ 52\<close> times the mean magnitude of the values, plus half the least
  subnormal number, of their exact mean; a finite dispersion that is not negative and is
  the rounded accumulation of the rounded squared distances to that average; a median
  estimate that is never above the lower median and at most \<open>0.001 + 2 ^ -62\<close> below it;
  the first ten values and the last ten values with the most recent first.
\<close>

theorem main_report_correct:
  assumes "finite_values fs bigfile xs" "moderate xs" "length xs < 2 ^ 52"
  shows "\<exists>n lo hi avg disp med d1 d2 d3 d4 d5 d6 whole.
     main clk fs = ([Len n d1, MinMax (lo, hi) d2, Average avg d3, Dispersion disp d4,
       Median med d5, LeftTail (take 10 xs) d6, RightTail (take 10 (rev xs)), TimeTook whole],
       Some (Inr ()))
     \<and> unat n = length xs
     \<and> val lo = Min (val ` set xs) \<and> val hi = Max (val ` set xs)
     \<and> \<bar>val avg - mean (map val xs)\<bar>
         \<le> real (length xs + 1) / 2 ^ 52 * (abs_sum (map val xs) / real (length xs))
           + least_subnormal / 2
     \<and> is_finite disp \<and> 0 \<le> val disp
     \<and> val disp = rnd (fl_sum 0 (map (sq_dev (val avg)) (map val xs)) / real (length xs))
     \<and> val med \<le> val (lower_median xs)
     \<and> val (lower_median xs) \<le> val med + (1 / 1000 + 1 / 2 ^ 62)"
proof -
  from assms(1) have rv: "read_values fs bigfile = Inr xs" "list_all is_finite xs" "xs \<noteq> []"
    by (simp_all add: finite_values_def)
  from assms(3) have n: "length xs < 2 ^ 64" and cv: "countable_values fs bigfile xs"
    by (simp_all add: countable_values_def rv)
  from min_max_values [OF rv] obtain a b where
    ab: "min_max fs bigfile = Inr (Some (a, b))"
      "val a = Min (val ` set xs)" "val b = Max (val ` set xs)"
    by blast
  from average_error_bound [OF cv assms(3) moderate_sums(1) [OF rv(1) assms(2,3)]]
  obtain avg where
    avg: "average fs bigfile = Inr avg"
      "\<bar>val avg - mean (map val xs)\<bar>
         \<le> real (length xs + 1) / 2 ^ 52 * (abs_sum (map val xs) / real (length xs))
           + least_subnormal / 2"
    by blast
  from dispersion_moderate [OF cv assms(2,3)] avg(1) obtain d where
    d: "dispersion fs bigfile = Inr d" "is_finite d" "0 \<le> val d"
      "val d = rnd (fl_sum 0 (map (sq_dev (val avg)) (map val xs)) / real (length xs))"
    by auto
  from median_values [OF assms(1,2)] obtain m where
    m: "median fs bigfile = Some (Inr m)" "val m \<le> val (lower_median xs)"
      "val (lower_median xs) \<le> val m + (1 / 1000 + 1 / 2 ^ 62)"
    by (auto simp: tol_width_def)
  have tail: "take 10 (rev (drop (length xs - 10000) xs)) = take 10 (rev xs)"
    by (rule take_rev_window) simp
  have t: "tails fs bigfile 10000 = Inr (take 10000 xs, drop (length xs - 10000) xs)"
    by (simp add: tails_values [OF rv(1)])
  from main_complete [OF len_values [OF rv(1)] ab(1) avg(1) d(1) m(1) t, of clk] ab avg d m n
  show ?thesis
    by (simp add: unat_of_nat_u64 tail)
qed

theorem main_report_correct_witness:
  "finite_values fs_five bigfile [Fin 1, Fin 2, Fin 3, Fin 4, Fin 5]
   \<and> moderate [Fin 1, Fin 2, Fin 3, Fin 4, Fin 5]
   \<and> (\<exists>n lo hi avg disp med d1 d2 d3 d4 d5 d6 whole.
         main (\<lambda>n. 10 * n) fs_five = ([Len n d1, MinMax (lo, hi) d2, Average avg d3,
           Dispersion disp d4, Median med d5, LeftTail [Fin 1, Fin 2, Fin 3, Fin 4, Fin 5] d6,
           RightTail [Fin 5, Fin 4, Fin 3, Fin 2, Fin 1], TimeTook whole], Some (Inr ()))
         \<and> unat n = 5 \<and> val lo = 1 \<and> val hi = 5 \<and> val med \<le> 3)"
  using main_report_correct [OF finite_values_five moderate_examples(1), of "\<lambda>n. 10 * n"]
  by (simp add: finite_values_five moderate_examples lower_median_five main_on_five)



text \<open>
  \<^bold>\<open>C20\<close> (error). The run stops at the first failure: when the scan of the file
  fails, \<^verbatim>\<open>main\<close> returns that error from its first statistic and has printed nothing;
  on a file without values it prints the length zero and then panics with the message
  of the \<^verbatim>\<open>expect\<close> on \<^verbatim>\<open>min_max\<close>.
\<close>

theorem main_failures:
  "(read_values fs bigfile = Inl e \<longrightarrow> main clk fs = ([], Some (Inl e)))
   \<and> (read_values fs bigfile = Inr [] \<longrightarrow>
        main clk fs = ([Len 0 (clk 4 - clk 3)], Some (Inl (Panic ''no values''))))"
  by (simp add: main_error main_Nil)

theorem main_failures_witness:
  "main (\<lambda>n. 10 * n) fs_bad = ([], Some (Inl ParseFloatError))
   \<and> main (\<lambda>n. 10 * n) fs_fault = ([], Some (Inl IoError))
   \<and> main (\<lambda>n. 10 * n) fs_empty = ([Len 0 10], Some (Inl (Panic ''no values'')))"
  using main_failures [of fs_bad ParseFloatError "\<lambda>n. 10 * n"]
    main_failures [of fs_fault IoError "\<lambda>n. 10 * n"]
    main_failures [of fs_empty _ "\<lambda>n. 10 * n"]
  by (simp add: read_values_bad read_values_fault read_values_empty)

text \<open>
  \<^bold>\<open>C39\<close> (liveness). On a file that can be read and has an infinite value \<^verbatim>\<open>main\<close> does
  not return: it prints the four lines of the statistics before the median, and the
  median search does not end.
\<close>

theorem main_no_return_on_infinity:
  assumes "read_values fs bigfile = Inr xs" "Inf s \<in> set xs"
  shows "\<exists>n mm avg disp. main clk fs =
    ([Len n (clk 4 - clk 3), MinMax mm (clk 6 - clk 5), Average avg (clk 8 - clk 7),
      Dispersion disp (clk 10 - clk 9)], None)"
proof -
  from min_max_infinity [OF assms] obtain a b where "min_max fs bigfile = Inr (Some (a, b))"
    by blast
  moreover have "\<exists>avg. average fs bigfile = Inr avg" "\<exists>d. dispersion fs bigfile = Inr d"
    by (auto simp: average_def dispersion_def for_file_Inr [OF assms(1)] rbind_eq_Inr_iff
        split: prod.splits)
  ultimately show ?thesis
    by (auto simp: main_unfold len_values [OF assms(1)] median_infinity [OF assms])
qed

theorem main_no_return_on_infinity_witness:
  "read_values fs_inf bigfile = Inr [Fin 1, Inf False] \<and> Inf False \<in> set [Fin 1, Inf False]
   \<and> (\<exists>n mm avg disp. main (\<lambda>n. 10 * n) fs_inf =
         ([Len n 10, MinMax mm 10, Average avg 10, Dispersion disp 10], None))"
  using main_no_return_on_infinity [OF read_values_inf, of False "\<lambda>n. 10 * n"]
  by (simp add: read_values_inf)

text \<open>
  \<^bold>\<open>C25\<close> (bounds). In a run that completes, the six durations printed are taken between
  the clock reading that ends one call of \<^verbatim>\<open>elapsed\<close> and the reading that begins the
  next, so each covers one statistic; with a clock that does not go back they add up to
  at most the total time printed in the last line.
\<close>

theorem main_timing:
  fixes clk :: clock
  assumes "mono clk" "main clk fs = (out, Some (Inr u))"
  shows "\<exists>n mm avg disp med left right.
      out = [Len n (clk 4 - clk 3), MinMax mm (clk 6 - clk 5), Average avg (clk 8 - clk 7),
        Dispersion disp (clk 10 - clk 9), Median med (clk 12 - clk 11),
        LeftTail left (clk 14 - clk 13), RightTail right, TimeTook (clk 16 - clk 0)]
    \<and> (clk 4 - clk 3) + (clk 6 - clk 5) + (clk 8 - clk 7) + (clk 10 - clk 9)
        + (clk 12 - clk 11) + (clk 14 - clk 13) \<le> clk 16 - clk 0"
proof -
  have c: "clk 0 \<le> clk 3" "clk 3 \<le> clk 4" "clk 4 \<le> clk 5" "clk 5 \<le> clk 6"
    "clk 6 \<le> clk 7" "clk 7 \<le> clk 8" "clk 8 \<le> clk 9" "clk 9 \<le> clk 10"
    "clk 10 \<le> clk 11" "clk 11 \<le> clk 12" "clk 12 \<le> clk 13" "clk 13 \<le> clk 14"
    "clk 14 \<le> clk 16"
    by (simp_all add: monoD [OF assms(1)])
  then have sum: "clk 4 - clk 3 + (clk 6 - clk 5) + (clk 8 - clk 7) + (clk 10 - clk 9)
      + (clk 12 - clk 11) + (clk 14 - clk 13) \<le> clk 16 - clk 0"
    by linarith
  from assms(2) obtain n mm avg disp med left right where
    "len fs bigfile = Inr n" "min_max fs bigfile = Inr (Some mm)"
    "average fs bigfile = Inr avg" "dispersion fs bigfile = Inr disp"
    "median fs bigfile = Some (Inr med)" "tails fs bigfile 10000 = Inr (left, right)"
    by (rule main_complete_cases)
  from main_complete [OF this, of clk] assms(2) sum show ?thesis
    by auto
qed

theorem main_timing_witness:
  "mono (\<lambda>n :: nat. 10 * n)
   \<and> main (\<lambda>n. 10 * n) fs_five =
       ([Len 5 10, MinMax (Fin 1, Fin 5) 10, Average (Fin 3) 10, Dispersion (Fin 2) 10,
         Median (Fin (3071 / 1024)) 10, LeftTail [Fin 1, Fin 2, Fin 3, Fin 4, Fin 5] 10,
         RightTail [Fin 5, Fin 4, Fin 3, Fin 2, Fin 1], TimeTook 160], Some (Inr ()))
   \<and> (10 :: nat) + 10 + 10 + 10 + 10 + 10 \<le> 160"
proof -
  have m: "mono (\<lambda>n :: nat. 10 * n)"
    by (simp add: mono_def)
  from main_timing [OF m main_on_five] m show ?thesis
    by (simp add: main_on_five)
qed

end
